theory Spec2Isabelle
  imports
    Main
    "HOL-Library.AList"
    "HOL-Library.Sublist"
    "HOL-Library.Char_ord"
    "HOL-Library.List_Lexorder"
    "HOL-Library.Product_Lexorder"
begin

section \<open>Values, errors and dictionaries\<close>

text \<open>
  The rule book is whatever \<^verbatim>\<open>json.loads\<close> returns: nested dictionaries, lists and atoms.
  A Python \<^verbatim>\<open>dict\<close> keeps its keys in insertion order and holds each key once, so it is an
  association list; \<open>JNull\<close> is also Python's \<^verbatim>\<open>None\<close>. The operations below only ever test
  whether a value is a dictionary or a list, so the payload of a number is never inspected.
\<close>

datatype json =
    JNull
  | JBool bool
  | JNum int
  | JStr string
  | JList "json list"
  | JObj "(string \<times> json) list"

datatype error =
    KeyError
  | TypeError
  | AttributeError
  | ValueError
  | RulesError string
  | JSONDecodeError
  | FileNotFoundError
  | OSError
  | ReError
  | LookupError
  | RecursionError

text \<open>\<^verbatim>\<open>obj[key]\<close> with a string key: only a dictionary answers, with \<^verbatim>\<open>KeyError\<close> for a missing
  key; a list, a string, a number, a boolean and \<^verbatim>\<open>None\<close> raise \<^verbatim>\<open>TypeError\<close>.\<close>

fun getitem :: "json \<Rightarrow> string \<Rightarrow> error + json" where
  "getitem (JObj kvs) k = (case map_of kvs k of None \<Rightarrow> Inl KeyError | Some v \<Rightarrow> Inr v)"
| "getitem _ k = Inl TypeError"

text \<open>\<^verbatim>\<open>obj[key] = value\<close> with a string key: an existing key keeps its position, a new key
  goes last (\<open>AList.update\<close>); anything but a dictionary raises \<^verbatim>\<open>TypeError\<close>.\<close>

fun setitem :: "json \<Rightarrow> string \<Rightarrow> json \<Rightarrow> error + json" where
  "setitem (JObj kvs) k v = Inr (JObj (AList.update k v kvs))"
| "setitem _ k v = Inl TypeError"

text \<open>\<^verbatim>\<open>dict(pairs)\<close>: later pairs overwrite earlier ones, in place.\<close>

definition dict_of :: "(string \<times> 'v) list \<Rightarrow> (string \<times> 'v) list" where
  "dict_of pairs = fold (\<lambda>(k, v). AList.update k v) pairs []"

text \<open>A list without its repetitions, each element at the place of its first occurrence: the
  order of the keys of a dictionary built from a list of pairs.\<close>

primrec first_occurrences :: "'a list \<Rightarrow> 'a list" where
  "first_occurrences [] = []"
| "first_occurrences (x # xs) = x # filter (\<lambda>y. y \<noteq> x) (first_occurrences xs)"

text \<open>The items of a value unpacked by \<^verbatim>\<open>**\<close>: only a dictionary is a mapping.\<close>

fun mapping_items :: "json \<Rightarrow> error + (string \<times> json) list" where
  "mapping_items (JObj kvs) = Inr kvs"
| "mapping_items _ = Inl TypeError"

text \<open>\<^verbatim>\<open>try: ... except KeyError: fallback\<close>.\<close>

definition except_KeyError :: "error + 'a \<Rightarrow> error + 'a \<Rightarrow> error + 'a" where
  "except_KeyError attempt fallback = (case attempt of Inl KeyError \<Rightarrow> fallback | other \<Rightarrow> other)"

text \<open>\<^verbatim>\<open>try: ... except Exception: raise ValueError\<close>.\<close>

definition except_Exception_ValueError :: "error + 'a \<Rightarrow> error + 'a" where
  "except_Exception_ValueError attempt = (case attempt of Inl e \<Rightarrow> Inl ValueError | Inr x \<Rightarrow> Inr x)"

section \<open>Strings\<close>

text \<open>\<^verbatim>\<open>v.find(q)\<close>: the index of the first occurrence of \<open>q\<close> in \<open>v\<close>, \<open>None\<close> for Python's -1;
  \<^verbatim>\<open>q in v\<close> is \<open>str_find v q \<noteq> None\<close>.\<close>

fun str_find :: "string \<Rightarrow> string \<Rightarrow> nat option" where
  "str_find [] q = (if q = [] then Some 0 else None)"
| "str_find (c # cs) q = (if prefix q (c # cs) then Some 0 else map_option Suc (str_find cs q))"

definition regex_marker :: string where
  "regex_marker = ''_regex_''"

definition line_feed :: char where
  "line_feed = CHR 0x0A"

definition double_quote :: char where
  "double_quote = CHR 0x22"

text \<open>\<^verbatim>\<open>re.search(r"_regex_(.*)", key)\<close>: the search succeeds exactly when the marker occurs in
  the key (the group may be empty); it takes the leftmost occurrence, and group 1 is the rest of
  the key up to its first line feed, which \<^verbatim>\<open>.\<close> does not match.\<close>

definition regex_search_marker :: "string \<Rightarrow> string option" where
  "regex_search_marker key =
     (case str_find key regex_marker of
        None \<Rightarrow> None
      | Some i \<Rightarrow> Some (takeWhile (\<lambda>c. c \<noteq> line_feed) (drop (i + length regex_marker) key)))"

definition is_regex_key :: "string \<Rightarrow> bool" where
  "is_regex_key key = (regex_search_marker key \<noteq> None)"

definition regex_body :: "string \<Rightarrow> string" where
  "regex_body key = (case regex_search_marker key of None \<Rightarrow> [] | Some b \<Rightarrow> b)"

section \<open>The rule book and the report\<close>

text \<open>
  A \<^verbatim>\<open>Rules\<close> object holds \<^verbatim>\<open>_all\<close>, the top-level dictionary, and \<^verbatim>\<open>_column\<close> and
  \<^verbatim>\<open>_jurisdiction\<close>, which are the very objects stored under its keys \<^verbatim>\<open>"column_rules"\<close> and
  \<^verbatim>\<open>"jurisdiction_rules"\<close>; none of the three is ever rebound. In this value model the object
  is the item list of \<^verbatim>\<open>_all\<close>, the two axis trees are read from it, and a mutation of an axis
  tree is written back under its key. The store model further down keeps the objects apart.
\<close>

record rules =
  r_all :: "(string \<times> json) list"

definition axis_key :: "string \<Rightarrow> string" where
  "axis_key col_or_jur = (if col_or_jur = ''c'' then ''column_rules'' else ''jurisdiction_rules'')"

definition axis_tree :: "rules \<Rightarrow> string \<Rightarrow> json" where
  "axis_tree self col_or_jur =
     (case map_of (r_all self) (axis_key col_or_jur) of Some t \<Rightarrow> t | None \<Rightarrow> JNull)"

definition set_axis_tree :: "rules \<Rightarrow> string \<Rightarrow> json \<Rightarrow> rules" where
  "set_axis_tree self col_or_jur t =
     self\<lparr>r_all := AList.update (axis_key col_or_jur) t (r_all self)\<rparr>"

record report =
  group_name :: string
  end_of_year :: string
  min_nb_jurs_per_table :: int
  min_nb_cols :: int

section \<open>Scoped rule resolution\<close>

text \<open>\<^verbatim>\<open>rule_book[mnc][year]\<close> and \<^verbatim>\<open>rule_book[mnc]["default"]\<close>, each under
  \<^verbatim>\<open>except KeyError: dict()\<close>.\<close>

definition sub_scope :: "json \<Rightarrow> string \<Rightarrow> string \<Rightarrow> error + json" where
  "sub_scope rule_book mnc k =
     except_KeyError
       (case getitem rule_book mnc of Inl e \<Rightarrow> Inl e | Inr company \<Rightarrow> getitem company k)
       (Inr (JObj []))"

text \<open>\<^verbatim>\<open>{**a, **b, **c}\<close>: the items of \<open>a\<close>, then those of \<open>b\<close> and of \<open>c\<close> written over
  them, a key keeping the place of its first occurrence.\<close>

definition merge3 :: "json \<Rightarrow> json \<Rightarrow> json \<Rightarrow> error + (string \<times> json) list" where
  "merge3 a b c =
     (case mapping_items a of Inl e \<Rightarrow> Inl e | Inr xs \<Rightarrow>
      case mapping_items b of Inl e \<Rightarrow> Inl e | Inr ys \<Rightarrow>
      case mapping_items c of Inl e \<Rightarrow> Inl e | Inr zs \<Rightarrow>
        Inr (dict_of (xs @ ys @ zs)))"

text \<open>\<^verbatim>\<open>if isinstance(v, dict): rules_in_effect[k] = v["sink"]\<close>, for every item in order.\<close>

fun sink_of :: "json \<Rightarrow> error + json" where
  "sink_of (JObj entry) = getitem (JObj entry) ''sink''"
| "sink_of v = Inr v"

fun reduce_sinks :: "(string \<times> json) list \<Rightarrow> error + (string \<times> json) list" where
  "reduce_sinks [] = Inr []"
| "reduce_sinks ((k, v) # rest) =
     (case sink_of v of
        Inl e \<Rightarrow> Inl e
      | Inr s \<Rightarrow> (case reduce_sinks rest of Inl e \<Rightarrow> Inl e | Inr rest' \<Rightarrow> Inr ((k, s) # rest')))"

text \<open>\<^verbatim>\<open>partition(pred, iterable)\<close> of \<^verbatim>\<open>utils\<close>: the false entries, then the true ones.\<close>

definition partition_py :: "('a \<Rightarrow> bool) \<Rightarrow> 'a list \<Rightarrow> 'a list \<times> 'a list" where
  "partition_py pred iterable = (filter (\<lambda>x. \<not> pred x) iterable, filter pred iterable)"

text \<open>Lines 72 to 75 of \<^verbatim>\<open>__get_rules\<close>: the merged mapping with every entry reduced to its sink.\<close>

definition rules_in_effect :: "json \<Rightarrow> json \<Rightarrow> json \<Rightarrow> error + (string \<times> json) list" where
  "rules_in_effect default_all_files_rules mne_rules year_rules =
     (case merge3 default_all_files_rules mne_rules year_rules of
        Inl e \<Rightarrow> Inl e
      | Inr merged \<Rightarrow> reduce_sinks merged)"

text \<open>Lines 76 to 82: the two partitions and the one asked for.\<close>

definition select_partition :: "string \<Rightarrow> (string \<times> json) list \<Rightarrow> (string \<times> json) list" where
  "select_partition strict_or_regex in_effect =
     (let (strict, regex) = partition_py (\<lambda>x. is_regex_key (fst x)) in_effect;
          regex_dict = dict_of (map (\<lambda>x. (regex_body (fst x), snd x)) regex)
      in if strict_or_regex = ''s'' then dict_of strict else regex_dict)"

definition get_rules :: "rules \<Rightarrow> string \<Rightarrow> string \<Rightarrow> report \<Rightarrow> error + (string \<times> json) list" where
  "get_rules self col_or_jur strict_or_regex report =
     (let rule_book = axis_tree self col_or_jur;
          mnc = group_name report;
          year = end_of_year report
      in case getitem rule_book ''default'' of Inl e \<Rightarrow> Inl e | Inr default_all_files_rules \<Rightarrow>
         case sub_scope rule_book mnc year of Inl e \<Rightarrow> Inl e | Inr year_rules \<Rightarrow>
         case sub_scope rule_book mnc ''default'' of Inl e \<Rightarrow> Inl e | Inr mne_rules \<Rightarrow>
           except_Exception_ValueError
             (case rules_in_effect default_all_files_rules mne_rules year_rules of
                Inl e \<Rightarrow> Inl e
              | Inr in_effect \<Rightarrow> Inr (select_partition strict_or_regex in_effect)))"

text \<open>\<^verbatim>\<open>get_sink_from_strict\<close>: \<^verbatim>\<open>.get(source)\<close> on the strict mapping, \<^verbatim>\<open>None\<close> for a missing
  key and for a \<^verbatim>\<open>KeyError\<close> of the resolution.\<close>

definition get_sink_from_strict :: "rules \<Rightarrow> report \<Rightarrow> string \<Rightarrow> string \<Rightarrow> error + json" where
  "get_sink_from_strict self report source col_or_jur =
     except_KeyError
       (case get_rules self col_or_jur ''s'' report of
          Inl e \<Rightarrow> Inl e
        | Inr strict \<Rightarrow> Inr (case map_of strict source of None \<Rightarrow> JNull | Some sink \<Rightarrow> sink))
       (Inr JNull)"

text \<open>
  The regular-expression engine is Python's \<^verbatim>\<open>re\<close> module, which is not part of the
  repository: \<open>re_compile pattern\<close> is \<open>None\<close> when \<^verbatim>\<open>re.compile\<close> raises \<^verbatim>\<open>re.error\<close>, and
  otherwise the predicate "\<^verbatim>\<open>re.match\<close> of the compiled pattern on this string is truthy".
\<close>

type_synonym regex_engine = "string \<Rightarrow> (string \<Rightarrow> bool) option"

fun first_match :: "regex_engine \<Rightarrow> (string \<times> json) list \<Rightarrow> string \<Rightarrow> error + json" where
  "first_match re_compile [] source = Inr JNull"
| "first_match re_compile ((source_rule, sink) # rest) source =
     (case re_compile source_rule of
        None \<Rightarrow> Inl ReError
      | Some source_rule_compiled \<Rightarrow>
          if source_rule_compiled source then Inr sink else first_match re_compile rest source)"

definition get_sink_from_regex ::
  "regex_engine \<Rightarrow> rules \<Rightarrow> report \<Rightarrow> string \<Rightarrow> string \<Rightarrow> error + json" where
  "get_sink_from_regex re_compile self report source col_or_jur =
     (case get_rules self col_or_jur ''r'' report of
        Inl e \<Rightarrow> Inl e
      | Inr regex \<Rightarrow> first_match re_compile regex source)"

section \<open>Rule mutation\<close>

definition rule_pair :: "string \<Rightarrow> string \<Rightarrow> json" where
  "rule_pair sink justification =
     JObj [(''sink'', JStr sink), (''justification'', JStr justification)]"

text \<open>
  The three nested attempts of the modes \<^verbatim>\<open>"#"\<close> and \<^verbatim>\<open>"."\<close>, with \<open>scope\<close> being
  \<^verbatim>\<open>"default"\<close> or the year. Python assigns into the stored dictionaries in place; here the
  changed dictionary is put back under the key it was read from, which keeps the key's position.
  An attempt that raises has assigned nothing.
\<close>

definition assign_source :: "json \<Rightarrow> string \<Rightarrow> string \<Rightarrow> string \<Rightarrow> json \<Rightarrow> error + json" where
  "assign_source rule_set company scope source pair =
     (case getitem rule_set company of Inl e \<Rightarrow> Inl e | Inr company_rules \<Rightarrow>
      case getitem company_rules scope of Inl e \<Rightarrow> Inl e | Inr scope_rules \<Rightarrow>
      case setitem scope_rules source pair of Inl e \<Rightarrow> Inl e | Inr scope_rules' \<Rightarrow>
      case setitem company_rules scope scope_rules' of Inl e \<Rightarrow> Inl e | Inr company_rules' \<Rightarrow>
        setitem rule_set company company_rules')"

definition assign_scope :: "json \<Rightarrow> string \<Rightarrow> string \<Rightarrow> string \<Rightarrow> json \<Rightarrow> error + json" where
  "assign_scope rule_set company scope source pair =
     (case getitem rule_set company of Inl e \<Rightarrow> Inl e | Inr company_rules \<Rightarrow>
      case setitem company_rules scope (JObj [(source, pair)]) of Inl e \<Rightarrow> Inl e | Inr company_rules' \<Rightarrow>
        setitem rule_set company company_rules')"

definition assign_company :: "json \<Rightarrow> string \<Rightarrow> string \<Rightarrow> string \<Rightarrow> json \<Rightarrow> error + json" where
  "assign_company rule_set company scope source pair =
     setitem rule_set company (JObj [(scope, JObj [(source, pair)])])"

definition assign_nested :: "json \<Rightarrow> string \<Rightarrow> string \<Rightarrow> string \<Rightarrow> json \<Rightarrow> error + json" where
  "assign_nested rule_set company scope source pair =
     except_KeyError (assign_source rule_set company scope source pair)
       (except_KeyError (assign_scope rule_set company scope source pair)
          (assign_company rule_set company scope source pair))"

text \<open>Mode \<^verbatim>\<open>"!"\<close>: \<^verbatim>\<open>rule_set["default"][source] = pair\<close>.\<close>

definition assign_default :: "json \<Rightarrow> string \<Rightarrow> json \<Rightarrow> error + json" where
  "assign_default rule_set source pair =
     (case getitem rule_set ''default'' of Inl e \<Rightarrow> Inl e | Inr default_rules \<Rightarrow>
      case setitem default_rules source pair of Inl e \<Rightarrow> Inl e | Inr default_rules' \<Rightarrow>
        setitem rule_set ''default'' default_rules')"

definition write_new_rule ::
  "rules \<Rightarrow> string \<Rightarrow> string \<Rightarrow> string \<Rightarrow> string \<Rightarrow> string \<Rightarrow> report \<Rightarrow> error + rules" where
  "write_new_rule self source mode sink justification col_or_jur report =
     (let rule_set = axis_tree self col_or_jur;
          company = group_name report;
          year = end_of_year report;
          pair = rule_pair sink justification;
          store = (\<lambda>r. case r of Inl e \<Rightarrow> Inl e | Inr rule_set' \<Rightarrow> Inr (set_axis_tree self col_or_jur rule_set'))
      in if mode = ''!'' then store (assign_default rule_set source pair)
         else if mode = ''#'' then store (assign_nested rule_set company ''default'' source pair)
         else if mode = ''.'' then store (assign_nested rule_set company year source pair)
         else Inr self)"

section \<open>Justification export\<close>

text \<open>
  An f-string writes a string as it is; how Python prints any other value is left to the
  parameter \<open>py_str\<close>.
\<close>

definition format_value :: "(json \<Rightarrow> string) \<Rightarrow> json \<Rightarrow> string" where
  "format_value py_str v = (case v of JStr s \<Rightarrow> s | _ \<Rightarrow> py_str v)"

text \<open>\<^verbatim>\<open>sep.join(parts)\<close>.\<close>

fun join :: "string \<Rightarrow> string list \<Rightarrow> string" where
  "join sep [] = []"
| "join sep [p] = p"
| "join sep (p # q # ps) = p @ sep @ join sep (q # ps)"

fun is_dict_or_list :: "json \<Rightarrow> bool" where
  "is_dict_or_list (JObj kvs) = True"
| "is_dict_or_list (JList xs) = True"
| "is_dict_or_list _ = False"

text \<open>The record of line 155; \<^verbatim>\<open>value['sink']\<close> on a list is a \<^verbatim>\<open>TypeError\<close>.\<close>

definition record_line :: "(json \<Rightarrow> string) \<Rightarrow> string list \<Rightarrow> string \<Rightarrow> json \<Rightarrow> error + string" where
  "record_line py_str keys key v =
     (case getitem v ''sink'' of Inl e \<Rightarrow> Inl e | Inr sink \<Rightarrow>
      case getitem v ''justification'' of Inl e \<Rightarrow> Inl e | Inr justification \<Rightarrow>
        Inr (join '','' (keys @ [key]) @ '','' @ format_value py_str sink @
             '','' @ [double_quote] @ format_value py_str justification @ [double_quote]))"

fun extract_objects :: "(json \<Rightarrow> string) \<Rightarrow> json \<Rightarrow> string list \<Rightarrow> nat \<Rightarrow> error + string list"
and extract_items ::
  "(json \<Rightarrow> string) \<Rightarrow> (string \<times> json) list \<Rightarrow> string list \<Rightarrow> nat \<Rightarrow> error + string list" where
  "extract_objects py_str (JObj kvs) keys level = extract_items py_str kvs keys level"
| "extract_objects py_str JNull keys level = Inr []"
| "extract_objects py_str (JBool b) keys level = Inr []"
| "extract_objects py_str (JNum n) keys level = Inr []"
| "extract_objects py_str (JStr t) keys level = Inr []"
| "extract_objects py_str (JList xs) keys level = Inr []"
| "extract_items py_str [] keys level = Inr []"
| "extract_items py_str ((key, v) # rest) keys level =
     (if level = 3 \<and> is_dict_or_list v then
        (case record_line py_str keys key v of Inl e \<Rightarrow> Inl e | Inr line \<Rightarrow>
         case extract_items py_str rest keys level of Inl e \<Rightarrow> Inl e | Inr out \<Rightarrow> Inr (line # out))
      else if is_dict_or_list v then
        (case extract_objects py_str v (keys @ [key]) (level + 1) of Inl e \<Rightarrow> Inl e | Inr sub \<Rightarrow>
         case extract_items py_str rest keys level of Inl e \<Rightarrow> Inl e | Inr out \<Rightarrow> Inr (sub @ out))
      else extract_items py_str rest keys level)"

definition csv_header :: string where
  "csv_header = ''type_of_rule, mnc, report_end_of_year, column_name_found, column_name_assigned, justification'' @ [line_feed]"

text \<open>\<^verbatim>\<open>export_justifications_to_csv\<close>: the text written to the file.\<close>

definition export_justifications_to_csv :: "(json \<Rightarrow> string) \<Rightarrow> rules \<Rightarrow> error + string" where
  "export_justifications_to_csv py_str self =
     (case extract_objects py_str (JObj (r_all self)) [] 0 of
        Inl e \<Rightarrow> Inl e
      | Inr records \<Rightarrow> Inr (csv_header @ join [line_feed] records))"

section \<open>Loading\<close>





section \<open>Text cleaning\<close>

text \<open>
  Strings are sequences of ASCII characters; a character outside ASCII is neither a letter nor
  white space here, which is also how the patterns below treat it.
\<close>

definition ascii_lowercase :: string where
  "ascii_lowercase = ''abcdefghijklmnopqrstuvwxyz''"

definition ascii_uppercase :: string where
  "ascii_uppercase = ''ABCDEFGHIJKLMNOPQRSTUVWXYZ''"

definition ascii_digits :: string where
  "ascii_digits = ''0123456789''"

text \<open>\<^verbatim>\<open>s.lower()\<close>, which on these strings is also \<^verbatim>\<open>s.casefold()\<close>, and \<^verbatim>\<open>s.upper()\<close>.\<close>

definition lower :: "string \<Rightarrow> string" where
  "lower s = map (\<lambda>c. case map_of (zip ascii_uppercase ascii_lowercase) c of Some d \<Rightarrow> d | None \<Rightarrow> c) s"

definition upper :: "string \<Rightarrow> string" where
  "upper s = map (\<lambda>c. case map_of (zip ascii_lowercase ascii_uppercase) c of Some d \<Rightarrow> d | None \<Rightarrow> c) s"

text \<open>White space, for \<^verbatim>\<open>\s\<close>, \<^verbatim>\<open>split()\<close> and \<^verbatim>\<open>strip()\<close>: space, tab, line feed, vertical tab,
  form feed, carriage return and the four separators above them.\<close>

definition is_space :: "char \<Rightarrow> bool" where
  "is_space c = (c \<in> set [CHR 0x20, CHR 0x09, CHR 0x0A, CHR 0x0B, CHR 0x0C, CHR 0x0D,
                           CHR 0x1C, CHR 0x1D, CHR 0x1E, CHR 0x1F])"

text \<open>\<^verbatim>\<open>\w\<close>: a letter, a digit or the underscore.\<close>

definition is_word_char :: "char \<Rightarrow> bool" where
  "is_word_char c = (c \<in> set (ascii_lowercase @ ascii_uppercase @ ascii_digits @ ''_''))"

text \<open>\<^verbatim>\<open>CHARS_TO_PURGE_FROM_COLUMN_NAMES_RE.sub(" ", arg)\<close>: every character that is not a
  letter, a space or an apostrophe becomes a space.\<close>

definition purge :: "string \<Rightarrow> string" where
  "purge arg =
     map (\<lambda>c. if c \<in> set (ascii_lowercase @ ascii_uppercase @ [CHR 0x20, CHR 0x27]) then c
               else CHR 0x20) arg"

text \<open>
  \<^verbatim>\<open>STAND_ALONE_CHAR_RE.sub(" ", s)\<close> with the pattern \<^verbatim>\<open>(\s\S\s*$)|(\smn\s*$)\<close>: a match
  is a white-space character followed by one character that is not white space, or by
  \<^verbatim>\<open>mn\<close>, and then white space up to the end. The search goes from the left; a match reaches
  the end of the string, so there is at most one, and it is replaced by one space.
\<close>

definition stand_alone_tail :: "string \<Rightarrow> bool" where
  "stand_alone_tail cs =
     ((case cs of [] \<Rightarrow> False | d # ds \<Rightarrow> \<not> is_space d \<and> list_all is_space ds) \<or>
      (prefix ''mn'' cs \<and> list_all is_space (drop 2 cs)))"

fun stand_alone_sub :: "string \<Rightarrow> string" where
  "stand_alone_sub [] = []"
| "stand_alone_sub (c # cs) =
     (if is_space c \<and> stand_alone_tail cs then '' '' else c # stand_alone_sub cs)"

text \<open>\<^verbatim>\<open>s.split()\<close>: the maximal runs of characters that are not white space.\<close>

fun split_from :: "string \<Rightarrow> string \<Rightarrow> string list" where
  "split_from [] word = (if word = [] then [] else [word])"
| "split_from (c # cs) word =
     (if is_space c then (if word = [] then split_from cs [] else word # split_from cs [])
      else split_from cs (word @ [c]))"

definition split :: "string \<Rightarrow> string list" where
  "split s = split_from s []"

text \<open>\<^verbatim>\<open>s.strip()\<close>.\<close>

definition strip :: "string \<Rightarrow> string" where
  "strip s = rev (dropWhile is_space (rev (dropWhile is_space s)))"

definition neatify :: "string \<Rightarrow> string" where
  "neatify arg = lower (join '' '' (split (stand_alone_sub (purge arg))))"

section \<open>Reference data\<close>

text \<open>
  The reference data live outside the repository: the set of alpha-3 codes and the catalogue
  of countries come from \<^verbatim>\<open>pycountry\<close>, as do its \<^verbatim>\<open>lookup\<close> (\<open>None\<close> for \<^verbatim>\<open>LookupError\<close>) and
  \<^verbatim>\<open>remove_accents\<close>; the name-to-code mapping is read from a configuration file.
\<close>

record country =
  alpha_3 :: string
  name :: "string option"
  official_name :: "string option"
  comment :: "string option"

record reference =
  ISO3166_ALPHA3 :: "string set"
  CONTRY_TO_ISO3166_MAPPING :: "string \<Rightarrow> string option"
  countries :: "country list"
  lookup :: "string \<Rightarrow> country option"
  remove_accents :: "string \<Rightarrow> string"

section \<open>Fuzzy country search\<close>

text \<open>\<^verbatim>\<open>add_result\<close>: \<^verbatim>\<open>results.setdefault(code, 0)\<close>, then \<^verbatim>\<open>results[code] += points\<close>.\<close>

definition add_result :: "(string \<times> int) list \<Rightarrow> string \<Rightarrow> int \<Rightarrow> (string \<times> int) list" where
  "add_result results code points =
     AList.update code ((case map_of results code of Some p \<Rightarrow> p | None \<Rightarrow> 0) + points) results"

text \<open>The inner loop over the fields of a candidate: the points of the first field that
  contains the query, \<open>None\<close> when no field does.\<close>

fun field_points :: "(string \<Rightarrow> string) \<Rightarrow> string \<Rightarrow> string option list \<Rightarrow> int option" where
  "field_points accents query [] = None"
| "field_points accents query (None # vs) = field_points accents query vs"
| "field_points accents query (Some v # vs) =
     (case str_find (accents (lower v)) query of
        Some position \<Rightarrow> Some (max 5 (30 - 2 * int position))
      | None \<Rightarrow> field_points accents query vs)"

definition candidate_points :: "reference \<Rightarrow> string \<Rightarrow> country \<Rightarrow> int option" where
  "candidate_points ref query candidate =
     field_points (remove_accents ref) query [name candidate, official_name candidate, comment candidate]"

text \<open>The loop over the catalogue.\<close>

fun partial_matches :: "reference \<Rightarrow> string \<Rightarrow> country list \<Rightarrow> (string \<times> int) list \<Rightarrow> (string \<times> int) list" where
  "partial_matches ref query [] results = results"
| "partial_matches ref query (candidate # rest) results =
     partial_matches ref query rest
       (case candidate_points ref query candidate of
          None \<Rightarrow> results
        | Some points \<Rightarrow> add_result results (alpha_3 candidate) points)"

definition exact_match :: "reference \<Rightarrow> string \<Rightarrow> (string \<times> int) list" where
  "exact_match ref query =
     (case lookup ref query of None \<Rightarrow> [] | Some c \<Rightarrow> add_result [] (alpha_3 c) 50)"

definition my_search_fuzzy :: "reference \<Rightarrow> string \<Rightarrow> error + (string \<times> int) list" where
  "my_search_fuzzy ref query0 =
     (let query = remove_accents ref (lower (strip query0))
      in if query \<in> set [''africa'', ''america'', ''europe''] then Inr [(query, 51)]
         else let results = partial_matches ref query (countries ref) (exact_match ref query)
              in if results = [] then Inl LookupError
                 else Inr (sort_key (\<lambda>x. (- snd x, fst x)) results))"

section \<open>Jurisdiction normalisation\<close>

text \<open>The fuzzy attempt of \<^verbatim>\<open>auto_jurisdiction_to_iso3166\<close>: the code of the first result;
  any exception, an empty result included, leaves \<open>c\<close> as it was.\<close>

definition fuzzy_code :: "reference \<Rightarrow> string \<Rightarrow> string \<Rightarrow> string" where
  "fuzzy_code ref x c =
     (case my_search_fuzzy ref x of
        Inr (first # others) \<Rightarrow> fst first
      | _ \<Rightarrow> c)"

definition auto_jurisdiction_to_iso3166 :: "reference \<Rightarrow> string \<Rightarrow> string" where
  "auto_jurisdiction_to_iso3166 ref z =
     (let x = neatify z
      in if upper x \<in> ISO3166_ALPHA3 ref then upper x
         else let c0 = (case CONTRY_TO_ISO3166_MAPPING ref x of Some code \<Rightarrow> code | None \<Rightarrow> []);
                  c = (if x \<noteq> [] \<and> c0 = [] \<and> upper z \<notin> ISO3166_ALPHA3 ref
                       then fuzzy_code ref x c0 else c0)
              in if c \<noteq> [] then c else if x \<noteq> [] then x else ''<empty>'')"

section \<open>Table orientation\<close>

definition count_countries :: "reference \<Rightarrow> string list \<Rightarrow> int" where
  "count_countries ref series =
     int (length (filter
       (\<lambda>cell. let n = neatify cell
              in (case CONTRY_TO_ISO3166_MAPPING ref (neatify cell) of Some code \<Rightarrow> code \<noteq> [] | None \<Rightarrow> False) \<or>
                 upper n \<in> ISO3166_ALPHA3 ref \<or>
                 upper n \<in> set [''AFRICA'', ''EUROPE'', ''AMERICA'', ''ASIA'', ''NORTH AMERICA''])
       series))"

text \<open>The terms are searched as they are written; all are plain words but \<^verbatim>\<open>\wrelated\<close>, a
  word character followed by \<^verbatim>\<open>related\<close>.\<close>

datatype term_pattern = Literal string | Word_char_then string

fun term_search :: "term_pattern \<Rightarrow> string \<Rightarrow> bool" where
  "term_search (Literal w) s = (str_find s w \<noteq> None)"
| "term_search (Word_char_then w) [] = False"
| "term_search (Word_char_then w) (c # cs) =
     ((is_word_char c \<and> prefix w cs) \<or> term_search (Word_char_then w) cs)"

definition ENGLISH_COLUMN_TERMS :: "term_pattern list" where
  "ENGLISH_COLUMN_TERMS =
     [Literal ''tax'', Word_char_then ''related'', Literal ''income'', Literal ''employee'',
      Literal ''unrelated'', Literal ''third'', Literal ''tangible'', Literal ''assets'',
      Literal ''party'', Literal ''parties'', Literal ''accrued'', Literal ''profit'',
      Literal ''revenue'']"

definition ITALIAN_COLUMN_TERMS :: "term_pattern list" where
  "ITALIAN_COLUMN_TERMS = [Literal ''imposte'', Literal ''pagate'', Literal ''reddito'', Literal ''utile'']"

definition COMPILED_CBCR_TERMS :: "term_pattern list" where
  "COMPILED_CBCR_TERMS = ENGLISH_COLUMN_TERMS @ ITALIAN_COLUMN_TERMS"

definition count_CbCR_terms :: "string \<Rightarrow> int" where
  "count_CbCR_terms s = int (length (filter (\<lambda>t. term_search t s) COMPILED_CBCR_TERMS))"

text \<open>
  A table is what the classifier iterates: the values of each column (\<^verbatim>\<open>df.items()\<close>) and of
  each row (\<^verbatim>\<open>df.iterrows()\<close>), cells being strings. How \<^verbatim>\<open>pandas\<close> prints a row
  (\<^verbatim>\<open>values.to_string()\<close>) is the parameter \<open>to_string\<close>.
\<close>

record table =
  table_columns :: "string list list"
  table_rows :: "string list list"

fun scan_rows :: "reference \<Rightarrow> (string list \<Rightarrow> string) \<Rightarrow> report \<Rightarrow> string list list \<Rightarrow> error + bool" where
  "scan_rows ref to_string report [] = Inl ValueError"
| "scan_rows ref to_string report (values # rest) =
     (if count_CbCR_terms (to_string values) \<ge> min_nb_cols report then Inr False
      else if count_countries ref values \<ge> min_nb_jurs_per_table report then Inr True
      else scan_rows ref to_string report rest)"

fun scan_columns ::
  "reference \<Rightarrow> (string list \<Rightarrow> string) \<Rightarrow> report \<Rightarrow> string list list \<Rightarrow> string list list \<Rightarrow> error + bool" where
  "scan_columns ref to_string report [] rows = scan_rows ref to_string report rows"
| "scan_columns ref to_string report (values # rest) rows =
     (if count_countries ref values \<ge> min_nb_jurs_per_table report then Inr False
      else scan_columns ref to_string report rest rows)"

definition is_transposed :: "reference \<Rightarrow> (string list \<Rightarrow> string) \<Rightarrow> table \<Rightarrow> report \<Rightarrow> error + bool" where
  "is_transposed ref to_string df report =
     scan_columns ref to_string report (table_columns df) (table_rows df)"

section \<open>The shape of a rule book\<close>

text \<open>A Python value: every dictionary in it holds each key once.\<close>

fun wf_json :: "json \<Rightarrow> bool" where
  "wf_json (JObj kvs) = (distinct (map fst kvs) \<and> (\<forall>kv \<in> set kvs. wf_json (snd kv)))"
| "wf_json (JList xs) = (\<forall>x \<in> set xs. wf_json x)"
| "wf_json _ = True"

text \<open>The keys of a dictionary are distinct; nothing is asked of another value.\<close>

fun distinct_keys :: "json \<Rightarrow> bool" where
  "distinct_keys (JObj kvs) = distinct (map fst kvs)"
| "distinct_keys _ = True"

text \<open>What a scope holds for a source key; a scope that is absent is the empty dictionary
  that \<open>sub_scope\<close> puts in its place.\<close>

definition scope_lookup :: "json \<Rightarrow> string \<Rightarrow> json option" where
  "scope_lookup scope k = (case scope of JObj kvs \<Rightarrow> map_of kvs k | _ \<Rightarrow> None)"

text \<open>Override precedence in the words of the specification: the value of the company-year
  scope \<open>y\<close> if it has the key, else that of the company-default scope \<open>m\<close>, else that of the
  global-default scope \<open>g\<close>.\<close>

definition in_force :: "json \<Rightarrow> json \<Rightarrow> json \<Rightarrow> string \<Rightarrow> json option" where
  "in_force g m y k =
     (case scope_lookup y k of Some v \<Rightarrow> Some v | None \<Rightarrow>
      case scope_lookup m k of Some v \<Rightarrow> Some v | None \<Rightarrow> scope_lookup g k)"


text \<open>
  The data model: a rule entry is a dictionary of atoms that has a sink and a justification;
  a scope maps source keys to rule entries or to plain sinks; a company maps \<^verbatim>\<open>"default"\<close> and
  years to scopes; an axis tree has the global scope under \<^verbatim>\<open>"default"\<close> and companies under
  every other key.
\<close>

definition is_atom :: "json \<Rightarrow> bool" where
  "is_atom v = (\<not> is_dict_or_list v)"

definition is_rule_entry :: "json \<Rightarrow> bool" where
  "is_rule_entry v =
     (case v of
        JObj entry \<Rightarrow> distinct (map fst entry) \<and> list_all (\<lambda>kv. is_atom (snd kv)) entry \<and>
                     map_of entry ''sink'' \<noteq> None \<and> map_of entry ''justification'' \<noteq> None
      | _ \<Rightarrow> False)"

definition is_scope :: "json \<Rightarrow> bool" where
  "is_scope v =
     (case v of
        JObj kvs \<Rightarrow> distinct (map fst kvs) \<and>
                   list_all (\<lambda>kv. is_rule_entry (snd kv) \<or> is_atom (snd kv)) kvs
      | _ \<Rightarrow> False)"

definition is_company :: "json \<Rightarrow> bool" where
  "is_company v =
     (case v of
        JObj subs \<Rightarrow> distinct (map fst subs) \<and> list_all (\<lambda>kv. is_scope (snd kv)) subs
      | _ \<Rightarrow> False)"

definition conforming_axis :: "json \<Rightarrow> bool" where
  "conforming_axis t =
     (case t of
        JObj scopes \<Rightarrow>
          distinct (map fst scopes) \<and>
          (case map_of scopes ''default'' of Some d \<Rightarrow> is_scope d | None \<Rightarrow> False) \<and>
          list_all (\<lambda>kv. fst kv = ''default'' \<or> is_company (snd kv)) scopes
      | _ \<Rightarrow> False)"

definition conforming_rules :: "rules \<Rightarrow> bool" where
  "conforming_rules self =
     (distinct (map fst (r_all self)) \<and>
      set (map fst (r_all self)) = {''column_rules'', ''jurisdiction_rules''} \<and>
      list_all (\<lambda>kv. conforming_axis (snd kv)) (r_all self))"







section \<open>Scores of the fuzzy search in the words of the specification\<close>

text \<open>The fields of a country that are present, in the order name, official name, comment,
  and a field as it is compared: in lower case, accents removed.\<close>

definition present_fields :: "country \<Rightarrow> string list" where
  "present_fields c = List.map_filter (\<lambda>v. v) [name c, official_name c, comment c]"

definition compared :: "reference \<Rightarrow> string \<Rightarrow> string" where
  "compared ref v = remove_accents ref (lower v)"

text \<open>The points of a country for its first field that contains the query:
  \<open>max 5 (30 - 2 * position)\<close>.\<close>

definition substring_points :: "reference \<Rightarrow> string \<Rightarrow> country \<Rightarrow> int option" where
  "substring_points ref query c =
     (case find (\<lambda>v. str_find (compared ref v) query \<noteq> None) (present_fields c) of
        None \<Rightarrow> None
      | Some v \<Rightarrow> map_option (\<lambda>position. max 5 (30 - 2 * int position))
                   (str_find (compared ref v) query))"

text \<open>A country code scores when the exact lookup finds a country of that code or a country
  of that code has a field containing the query; its score is 50 for the former plus the points
  of every such country of the catalogue.\<close>

definition scores :: "reference \<Rightarrow> string \<Rightarrow> string \<Rightarrow> bool" where
  "scores ref query code =
     ((case lookup ref query of Some c \<Rightarrow> alpha_3 c = code | None \<Rightarrow> False) \<or>
      list_ex (\<lambda>c. alpha_3 c = code \<and> substring_points ref query c \<noteq> None) (countries ref))"

definition country_score :: "reference \<Rightarrow> string \<Rightarrow> string \<Rightarrow> int" where
  "country_score ref query code =
     (case lookup ref query of Some c \<Rightarrow> if alpha_3 c = code then 50 else 0 | None \<Rightarrow> 0) +
     sum_list (map (\<lambda>c. case substring_points ref query c of Some p \<Rightarrow> p | None \<Rightarrow> 0)
                 (filter (\<lambda>c. alpha_3 c = code) (countries ref)))"

section \<open>The rule book in a store\<close>

text \<open>
  In Python the dictionaries and lists of the rule book are objects: a variable or a dictionary
  entry holds a reference, and an assignment through one reference is seen through every
  other. Here the store is the list of all objects made so far, an address is an index into
  it, and a new object goes to the end. The read operations of \<^verbatim>\<open>Rules\<close> are given again on
  this store, statement by statement, to see which objects they touch.
\<close>

datatype pyval = VNull | VBool bool | VNum int | VStr string | VRef nat

datatype pyobj = ODict "(string \<times> pyval) list" | OList "pyval list"

type_synonym heap = "pyobj list"

text \<open>A statement or a call: from a store to a result or an exception, and the store after it.\<close>

type_synonym 'a cmd = "heap \<Rightarrow> (error + 'a) \<times> heap"

definition h_return :: "'a \<Rightarrow> 'a cmd" where
  "h_return x h = (Inr x, h)"

definition h_raise :: "error \<Rightarrow> 'a cmd" where
  "h_raise e h = (Inl e, h)"

definition h_bind :: "'a cmd \<Rightarrow> ('a \<Rightarrow> 'b cmd) \<Rightarrow> 'b cmd" where
  "h_bind m f h = (case m h of (Inl e, h') \<Rightarrow> (Inl e, h') | (Inr x, h') \<Rightarrow> f x h')"

text \<open>\<^verbatim>\<open>try: m except KeyError: fallback\<close> and \<^verbatim>\<open>try: m except Exception: raise ValueError\<close>; what
  \<open>m\<close> did to the store before it raised stays done.\<close>

definition h_except_KeyError :: "'a cmd \<Rightarrow> 'a cmd \<Rightarrow> 'a cmd" where
  "h_except_KeyError m fallback h =
     (case m h of (Inl KeyError, h') \<Rightarrow> fallback h' | other \<Rightarrow> other)"

definition h_except_Exception_ValueError :: "'a cmd \<Rightarrow> 'a cmd" where
  "h_except_Exception_ValueError m h =
     (case m h of (Inl e, h') \<Rightarrow> (Inl ValueError, h') | other \<Rightarrow> other)"

text \<open>The dictionary a value refers to, if it refers to one: \<^verbatim>\<open>isinstance(v, dict)\<close>.\<close>

definition dict_at :: "heap \<Rightarrow> pyval \<Rightarrow> (string \<times> pyval) list option" where
  "dict_at h v =
     (case v of
        VRef a \<Rightarrow> (if a < length h then (case h ! a of ODict kvs \<Rightarrow> Some kvs | OList xs \<Rightarrow> None) else None)
      | _ \<Rightarrow> None)"

definition list_at :: "heap \<Rightarrow> pyval \<Rightarrow> pyval list option" where
  "list_at h v =
     (case v of
        VRef a \<Rightarrow> (if a < length h then (case h ! a of OList xs \<Rightarrow> Some xs | ODict kvs \<Rightarrow> None) else None)
      | _ \<Rightarrow> None)"

text \<open>\<^verbatim>\<open>v[key]\<close>, the items unpacked by \<^verbatim>\<open>**v\<close>, a new dictionary, and \<^verbatim>\<open>v[key] = x\<close>.\<close>

definition read_item :: "heap \<Rightarrow> pyval \<Rightarrow> string \<Rightarrow> error + pyval" where
  "read_item h v key =
     (case dict_at h v of
        None \<Rightarrow> Inl TypeError
      | Some kvs \<Rightarrow> (case map_of kvs key of None \<Rightarrow> Inl KeyError | Some x \<Rightarrow> Inr x))"

definition h_getitem :: "pyval \<Rightarrow> string \<Rightarrow> pyval cmd" where
  "h_getitem v key h = (read_item h v key, h)"

definition h_mapping_items :: "pyval \<Rightarrow> (string \<times> pyval) list cmd" where
  "h_mapping_items v h = ((case dict_at h v of None \<Rightarrow> Inl TypeError | Some kvs \<Rightarrow> Inr kvs), h)"

definition h_new_dict :: "(string \<times> pyval) list \<Rightarrow> pyval cmd" where
  "h_new_dict kvs h = (Inr (VRef (length h)), h @ [ODict kvs])"

definition h_setitem :: "pyval \<Rightarrow> string \<Rightarrow> pyval \<Rightarrow> unit cmd" where
  "h_setitem v key x h =
     (case v of
        VRef a \<Rightarrow>
          (case dict_at h v of
             None \<Rightarrow> (Inl TypeError, h)
           | Some kvs \<Rightarrow> (Inr (), h[a := ODict (AList.update key x kvs)]))
      | _ \<Rightarrow> (Inl TypeError, h))"

text \<open>The \<^verbatim>\<open>Rules\<close> object: its three attributes.\<close>

record rules_object =
  attr_all :: pyval
  attr_column :: pyval
  attr_jurisdiction :: pyval

subsection \<open>Resolution\<close>

text \<open>\<^verbatim>\<open>rule_book[mnc][k]\<close> under \<^verbatim>\<open>except KeyError: dict()\<close>.\<close>

definition h_sub_scope :: "pyval \<Rightarrow> string \<Rightarrow> string \<Rightarrow> pyval cmd" where
  "h_sub_scope rule_book mnc k =
     h_except_KeyError
       (h_bind (h_getitem rule_book mnc) (\<lambda>company. h_getitem company k))
       (h_new_dict [])"

text \<open>The loop of lines 73 to 75, over the items of the merged dictionary: an item whose value
  is a dictionary gets that dictionary's sink instead.\<close>

fun h_reduce_sinks :: "pyval \<Rightarrow> (string \<times> pyval) list \<Rightarrow> unit cmd" where
  "h_reduce_sinks in_effect [] = h_return ()"
| "h_reduce_sinks in_effect ((k, v) # rest) =
     (\<lambda>h. if dict_at h v \<noteq> None
          then h_bind (h_getitem v ''sink'')
                 (\<lambda>sink. h_bind (h_setitem in_effect k sink)
                    (\<lambda>_. h_reduce_sinks in_effect rest)) h
          else h_reduce_sinks in_effect rest h)"

definition h_get_rules :: "rules_object \<Rightarrow> string \<Rightarrow> string \<Rightarrow> report \<Rightarrow> pyval cmd" where
  "h_get_rules self col_or_jur strict_or_regex report =
     (let rule_book = (if col_or_jur = ''c'' then attr_column self else attr_jurisdiction self);
          mnc = group_name report;
          year = end_of_year report
      in h_bind (h_getitem rule_book ''default'') (\<lambda>default_all_files_rules.
         h_bind (h_sub_scope rule_book mnc year) (\<lambda>year_rules.
         h_bind (h_sub_scope rule_book mnc ''default'') (\<lambda>mne_rules.
         h_except_Exception_ValueError
           (h_bind (h_mapping_items default_all_files_rules) (\<lambda>xs.
            h_bind (h_mapping_items mne_rules) (\<lambda>ys.
            h_bind (h_mapping_items year_rules) (\<lambda>zs.
            h_bind (h_new_dict (dict_of (xs @ ys @ zs))) (\<lambda>in_effect.
            h_bind (h_reduce_sinks in_effect (dict_of (xs @ ys @ zs))) (\<lambda>_.
            h_bind (h_mapping_items in_effect) (\<lambda>items.
              let (strict, regex) = partition_py (\<lambda>x. is_regex_key (fst x)) items
              in h_bind (h_new_dict (dict_of (map (\<lambda>x. (regex_body (fst x), snd x)) regex)))
                   (\<lambda>regex_dict.
                      if strict_or_regex = ''s'' then h_new_dict (dict_of strict)
                      else h_return regex_dict))))))))))))"

definition h_get_sink_from_strict :: "rules_object \<Rightarrow> report \<Rightarrow> string \<Rightarrow> string \<Rightarrow> pyval cmd" where
  "h_get_sink_from_strict self report source col_or_jur =
     h_except_KeyError
       (h_bind (h_get_rules self col_or_jur ''s'' report) (\<lambda>strict.
        h_bind (h_mapping_items strict) (\<lambda>items.
          h_return (case map_of items source of None \<Rightarrow> VNull | Some sink \<Rightarrow> sink))))
       (h_return VNull)"

fun h_first_match :: "regex_engine \<Rightarrow> (string \<times> pyval) list \<Rightarrow> string \<Rightarrow> pyval cmd" where
  "h_first_match re_compile [] source = h_return VNull"
| "h_first_match re_compile ((source_rule, sink) # rest) source =
     (case re_compile source_rule of
        None \<Rightarrow> h_raise ReError
      | Some source_rule_compiled \<Rightarrow>
          if source_rule_compiled source then h_return sink
          else h_first_match re_compile rest source)"

definition h_get_sink_from_regex ::
  "regex_engine \<Rightarrow> rules_object \<Rightarrow> report \<Rightarrow> string \<Rightarrow> string \<Rightarrow> pyval cmd" where
  "h_get_sink_from_regex re_compile self report source col_or_jur =
     h_bind (h_get_rules self col_or_jur ''r'' report) (\<lambda>regex.
     h_bind (h_mapping_items regex) (\<lambda>items. h_first_match re_compile items source))"

subsection \<open>Standard column names\<close>

text \<open>
  \<^verbatim>\<open>iterate_multidimensional\<close> has no assignment to a dictionary: it reads the store. It calls
  itself for every value that is a dictionary; \<open>depth\<close> is how many nested calls the
  interpreter still allows, and \<^verbatim>\<open>RecursionError\<close> is what it raises beyond that.
\<close>

fun iterate_items :: "nat \<Rightarrow> heap \<Rightarrow> (string \<times> pyval) list \<Rightarrow> error + pyval list" where
  "iterate_items depth h [] = Inr []"
| "iterate_items depth h ((k, v) # rest) =
     (case dict_at h v of
        Some sub \<Rightarrow>
          (case depth of
             0 \<Rightarrow> Inl RecursionError
           | Suc d \<Rightarrow>
               (case iterate_items d h sub of Inl e \<Rightarrow> Inl e | Inr out1 \<Rightarrow>
                case iterate_items depth h rest of Inl e \<Rightarrow> Inl e | Inr out2 \<Rightarrow> Inr (out1 @ out2)))
      | None \<Rightarrow>
          if k \<notin> set [''justification'', ''comment'', ''note'']
          then (case iterate_items depth h rest of Inl e \<Rightarrow> Inl e | Inr out \<Rightarrow> Inr (v # out))
          else iterate_items depth h rest)"

definition IRS_columns :: "string list" where
  "IRS_columns =
     [''unrelated_revenues'', ''related_revenues'', ''total_revenues'', ''profit_before_tax'',
      ''tax_paid'', ''tax_accrued'', ''stated_capital'', ''accumulated_earnings'', ''employees'',
      ''tangible_assets'']"

text \<open>The collected values go into a set with the standard column names and the set is
  sorted: a value that is a list cannot be in a set, and any other value that is not a string
  cannot be compared with the names; both raise \<^verbatim>\<open>TypeError\<close>.\<close>

fun as_strings :: "pyval list \<Rightarrow> error + string list" where
  "as_strings [] = Inr []"
| "as_strings (VStr s # vs) = (case as_strings vs of Inl e \<Rightarrow> Inl e | Inr ss \<Rightarrow> Inr (s # ss))"
| "as_strings (v # vs) = Inl TypeError"

definition read_std_colnames :: "nat \<Rightarrow> rules_object \<Rightarrow> heap \<Rightarrow> error + string list" where
  "read_std_colnames depth self h =
     (case dict_at h (attr_column self) of
        None \<Rightarrow> Inl AttributeError
      | Some items \<Rightarrow>
          (case iterate_items depth h items of Inl e \<Rightarrow> Inl e | Inr out \<Rightarrow>
           case as_strings out of Inl e \<Rightarrow> Inl e | Inr names \<Rightarrow>
             Inr (sort (remdups (removeAll ''to_drop'' (IRS_columns @ names))))))"

definition h_get_std_colnames_from_rules :: "nat \<Rightarrow> rules_object \<Rightarrow> string list cmd" where
  "h_get_std_colnames_from_rules depth self h = (read_std_colnames depth self h, h)"

subsection \<open>Justification export\<close>

text \<open>\<^verbatim>\<open>extract_objects\<close> reads the store as well. It calls itself only above level 3, so from
  level 0 it is at most four calls deep; \<open>depth\<close> bounds the calls from any other level.\<close>

definition h_format_value :: "(heap \<Rightarrow> pyval \<Rightarrow> string) \<Rightarrow> heap \<Rightarrow> pyval \<Rightarrow> string" where
  "h_format_value py_str h v = (case v of VStr s \<Rightarrow> s | _ \<Rightarrow> py_str h v)"

definition h_record_line ::
  "(heap \<Rightarrow> pyval \<Rightarrow> string) \<Rightarrow> heap \<Rightarrow> string list \<Rightarrow> string \<Rightarrow> pyval \<Rightarrow> error + string" where
  "h_record_line py_str h keys key v =
     (case read_item h v ''sink'' of Inl e \<Rightarrow> Inl e | Inr sink \<Rightarrow>
      case read_item h v ''justification'' of Inl e \<Rightarrow> Inl e | Inr justification \<Rightarrow>
        Inr (join '','' (keys @ [key]) @ '','' @ h_format_value py_str h sink @
             '','' @ [double_quote] @ h_format_value py_str h justification @ [double_quote]))"

fun h_extract_items ::
  "nat \<Rightarrow> (heap \<Rightarrow> pyval \<Rightarrow> string) \<Rightarrow> heap \<Rightarrow> (string \<times> pyval) list \<Rightarrow> string list \<Rightarrow> nat \<Rightarrow>
     error + string list" where
  "h_extract_items depth py_str h [] keys level = Inr []"
| "h_extract_items depth py_str h ((key, v) # rest) keys level =
     (if level = 3 \<and> (dict_at h v \<noteq> None \<or> list_at h v \<noteq> None) then
        (case h_record_line py_str h keys key v of Inl e \<Rightarrow> Inl e | Inr line \<Rightarrow>
         case h_extract_items depth py_str h rest keys level of Inl e \<Rightarrow> Inl e | Inr out \<Rightarrow>
           Inr (line # out))
      else if dict_at h v \<noteq> None \<or> list_at h v \<noteq> None then
        (case depth of
           0 \<Rightarrow> Inl RecursionError
         | Suc d \<Rightarrow>
             (case h_extract_items d py_str h (case dict_at h v of Some sub \<Rightarrow> sub | None \<Rightarrow> [])
                     (keys @ [key]) (level + 1) of
                Inl e \<Rightarrow> Inl e
              | Inr sub_out \<Rightarrow>
                  (case h_extract_items depth py_str h rest keys level of
                     Inl e \<Rightarrow> Inl e
                   | Inr out \<Rightarrow> Inr (sub_out @ out))))
      else h_extract_items depth py_str h rest keys level)"

definition read_export :: "nat \<Rightarrow> (heap \<Rightarrow> pyval \<Rightarrow> string) \<Rightarrow> rules_object \<Rightarrow> heap \<Rightarrow> error + string" where
  "read_export depth py_str self h =
     (case h_extract_items depth py_str h
             (case dict_at h (attr_all self) of Some items \<Rightarrow> items | None \<Rightarrow> []) [] 0 of
        Inl e \<Rightarrow> Inl e
      | Inr records \<Rightarrow> Inr (csv_header @ join [line_feed] records))"

definition h_export_justifications_to_csv ::
  "nat \<Rightarrow> (heap \<Rightarrow> pyval \<Rightarrow> string) \<Rightarrow> rules_object \<Rightarrow> string cmd" where
  "h_export_justifications_to_csv depth py_str self h = (read_export depth py_str self h, h)"

subsection \<open>Building the objects of a document\<close>

text \<open>What \<^verbatim>\<open>json.loads\<close> leaves in the store for a document: one object for every dictionary
  and list, the inner ones first.\<close>

fun store_json :: "json \<Rightarrow> heap \<Rightarrow> pyval \<times> heap"
and store_items :: "(string \<times> json) list \<Rightarrow> heap \<Rightarrow> (string \<times> pyval) list \<times> heap"
and store_elements :: "json list \<Rightarrow> heap \<Rightarrow> pyval list \<times> heap" where
  "store_json JNull h = (VNull, h)"
| "store_json (JBool b) h = (VBool b, h)"
| "store_json (JNum n) h = (VNum n, h)"
| "store_json (JStr s) h = (VStr s, h)"
| "store_json (JList xs) h = (case store_elements xs h of (vs, h') \<Rightarrow> (VRef (length h'), h' @ [OList vs]))"
| "store_json (JObj kvs) h = (case store_items kvs h of (items, h') \<Rightarrow> (VRef (length h'), h' @ [ODict items]))"
| "store_items [] h = ([], h)"
| "store_items ((k, v) # rest) h =
     (case store_json v h of (x, h') \<Rightarrow>
      case store_items rest h' of (items, h'') \<Rightarrow> ((k, x) # items, h''))"
| "store_elements [] h = ([], h)"
| "store_elements (v # rest) h =
     (case store_json v h of (x, h') \<Rightarrow>
      case store_elements rest h' of (xs, h'') \<Rightarrow> (x # xs, h''))"

text \<open>The \<^verbatim>\<open>Rules\<close> object of a document that has both axis keys, and the store it lives in.\<close>

definition construct :: "rules \<Rightarrow> rules_object \<times> heap" where
  "construct doc =
     (case store_json (JObj (r_all doc)) [] of
        (root, h) \<Rightarrow>
          (\<lparr>attr_all = root,
            attr_column = (case read_item h root ''column_rules'' of Inr v \<Rightarrow> v | Inl e \<Rightarrow> VNull),
            attr_jurisdiction = (case read_item h root ''jurisdiction_rules'' of Inr v \<Rightarrow> v | Inl e \<Rightarrow> VNull)\<rparr>,
           h))"

subsection \<open>What a call leaves of a store\<close>

text \<open>\<open>keeps h0 Q m\<close>: run in any store that begins with \<open>h0\<close>, the command \<open>m\<close> ends in a store
  that begins with \<open>h0\<close>, and a value it returns satisfies \<open>Q\<close>.\<close>

definition keeps :: "heap \<Rightarrow> ('a \<Rightarrow> bool) \<Rightarrow> 'a cmd \<Rightarrow> bool" where
  "keeps h0 Q m =
     (\<forall>h. prefix h0 h \<longrightarrow>
        (case m h of (r, h') \<Rightarrow> prefix h0 h' \<and> (case r of Inr x \<Rightarrow> Q x | Inl e \<Rightarrow> True)))"

text \<open>A reference to an object that \<open>h0\<close> does not hold.\<close>

definition fresh_for :: "heap \<Rightarrow> pyval \<Rightarrow> bool" where
  "fresh_for h0 v = (case v of VRef a \<Rightarrow> length h0 \<le> a | _ \<Rightarrow> False)"

section \<open>Sample data\<close>

text \<open>A small rule book and a report, on which the theorems below are evaluated.\<close>

definition sample_rules :: rules where
  "sample_rules = \<lparr>r_all =
     [(''column_rules'', JObj
        [(''default'', JObj
            [(''Foo'', rule_pair ''g'' ''global''),
             (''Only'', JStr ''o''),
             (''_regex_^A'', JStr ''x''),
             (''_regex_^AB'', JStr ''y'')]),
         (''ACME'', JObj
            [(''default'', JObj [(''Foo'', rule_pair ''m'' ''company'')]),
             (''2020'', JObj [(''Foo'', rule_pair ''y'' ''year'')])])]),
      (''jurisdiction_rules'', JObj [(''default'', JObj [])])]\<rparr>"

definition sample_report :: report where
  "sample_report =
     \<lparr>group_name = ''ACME'', end_of_year = ''2020'', min_nb_jurs_per_table = 2, min_nb_cols = 2\<rparr>"

text \<open>A sample regular-expression engine: on a pattern made of letters and digits, with or
  without a leading \<^verbatim>\<open>^\<close>, \<^verbatim>\<open>re.match\<close> succeeds exactly when the literal is a prefix of the
  string; every other pattern is refused.\<close>

definition ascii_letters_digits :: string where
  "ascii_letters_digits = ''abcdefghijklmnopqrstuvwxyzABCDEFGHIJKLMNOPQRSTUVWXYZ0123456789''"

definition literal_engine :: regex_engine where
  "literal_engine pattern =
     (let literal = (case pattern of [] \<Rightarrow> [] | c # cs \<Rightarrow> if c = CHR ''^'' then cs else pattern)
      in if list_all (\<lambda>c. c \<in> set ascii_letters_digits) literal then Some (prefix literal) else None)"

text \<open>A rule book whose only rule is a regex rule with a line feed in its pattern body.\<close>

definition newline_key :: string where
  "newline_key = regex_marker @ ''a'' @ [line_feed] @ ''b''"

definition newline_rules :: rules where
  "newline_rules = \<lparr>r_all =
     [(''column_rules'', JObj [(''default'', JObj [(newline_key, JStr ''x'')])]),
      (''jurisdiction_rules'', JObj [(''default'', JObj [])])]\<rparr>"

text \<open>An empty rule book, and a report of a company that is called like the global scope.\<close>

definition empty_rules :: rules where
  "empty_rules = \<lparr>r_all =
     [(''column_rules'', JObj [(''default'', JObj [])]),
      (''jurisdiction_rules'', JObj [(''default'', JObj [])])]\<rparr>"

definition default_company_report :: report where
  "default_company_report =
     \<lparr>group_name = ''default'', end_of_year = ''2020'', min_nb_jurs_per_table = 2, min_nb_cols = 2\<rparr>"


definition global_only_rules :: rules where
  "global_only_rules = \<lparr>r_all =
     [(''column_rules'', JObj [(''default'', JObj [(''Foo'', rule_pair ''bar'' ''j1'')])]),
      (''jurisdiction_rules'', JObj [(''default'', JObj [])])]\<rparr>"



text \<open>Sample reference data: four countries, a name index with two entries, an exact lookup
  by name or code, and no accents to remove.\<close>

definition sample_countries :: "country list" where
  "sample_countries =
     [\<lparr>alpha_3 = ''DEU'', name = Some ''Germany'', official_name = Some ''Federal Republic of Germany'', comment = None\<rparr>,
      \<lparr>alpha_3 = ''FRA'', name = Some ''France'', official_name = Some ''French Republic'', comment = None\<rparr>,
      \<lparr>alpha_3 = ''ITA'', name = Some ''Italy'', official_name = Some ''Italian Republic'', comment = None\<rparr>,
      \<lparr>alpha_3 = ''ZAF'', name = Some ''South Africa'', official_name = Some ''Republic of South Africa'', comment = None\<rparr>]"

definition sample_reference :: reference where
  "sample_reference =
     \<lparr>ISO3166_ALPHA3 = set (map alpha_3 sample_countries),
      CONTRY_TO_ISO3166_MAPPING = map_of [(''italy'', ''ITA''), (''france'', ''FRA'')],
      countries = sample_countries,
      lookup = (\<lambda>q. find (\<lambda>c. map_option lower (name c) = Some q \<or> lower (alpha_3 c) = q) sample_countries),
      remove_accents = (\<lambda>s. s)\<rparr>"

text \<open>Sample tables, each with its columns and its rows: jurisdictions along a row, along a
  column, a header row of terms, and a table with neither.\<close>

definition wide_table :: table where
  "wide_table = \<lparr>table_columns = [[''jurisdiction''], [''Italy''], [''France'']],
                  table_rows = [[''jurisdiction'', ''Italy'', ''France'']]\<rparr>"

definition long_table :: table where
  "long_table = \<lparr>table_columns = [[''jurisdiction'', ''Italy'', ''France''], [''tax paid'', ''1'', ''2'']],
                  table_rows = [[''jurisdiction'', ''tax paid''], [''Italy'', ''1''], [''France'', ''2'']]\<rparr>"

definition header_table :: table where
  "header_table = \<lparr>table_columns = [[''x'', ''Italy''], [''tax paid'', ''1''], [''profit'', ''2'']],
                    table_rows = [[''x'', ''tax paid'', ''profit''], [''Italy'', ''1'', ''2'']]\<rparr>"

definition blank_table :: table where
  "blank_table = \<lparr>table_columns = [[''a'', ''c''], [''b'', ''d'']],
                   table_rows = [[''a'', ''b''], [''c'', ''d'']]\<rparr>"

text \<open>The sample rule book as objects in a store.\<close>

definition sample_object :: rules_object where
  "sample_object = fst (construct sample_rules)"

definition sample_store :: heap where
  "sample_store = snd (construct sample_rules)"

lemmas sample_defs =
  sample_rules_def sample_report_def rule_pair_def axis_tree_def axis_key_def sub_scope_def
  except_KeyError_def

section \<open>Facts about dictionaries\<close>

lemma fold_update_map_of:
  "map_of (fold (\<lambda>(k, v). AList.update k v) ps acc) k =
     (case map_of (rev ps) k of Some v \<Rightarrow> Some v | None \<Rightarrow> map_of acc k)"
proof (induction ps arbitrary: acc)
  case Nil
  then show ?case by simp
next
  case (Cons p ps)
  obtain a b where p: "p = (a, b)" by (cases p)
  show ?case
    by (simp add: p Cons.IH update_conv' map_add_def split: option.splits)
qed

lemma map_of_dict_of:
  "map_of (dict_of ps) k = map_of (rev ps) k"
  by (simp add: dict_of_def fold_update_map_of split: option.splits)

lemma distinct_fold_update:
  "distinct (map fst acc) \<Longrightarrow> distinct (map fst (fold (\<lambda>(k, v). AList.update k v) ps acc))"
  by (induction ps arbitrary: acc) (auto simp: distinct_update)

lemma distinct_dict_of: "distinct (map fst (dict_of ps))"
  by (simp add: dict_of_def distinct_fold_update)

lemma map_of_rev_distinct:
  "distinct (map fst ps) \<Longrightarrow> map_of (rev ps) = map_of ps"
proof -
  assume d: "distinct (map fst ps)"
  then have "distinct (map fst (rev ps))" by (simp add: rev_map [symmetric])
  from map_of_inject_set [OF this d] show ?thesis by simp
qed

lemma update_fresh: "k \<notin> fst ` set al \<Longrightarrow> AList.update k v al = al @ [(k, v)]"
  by (induction al) auto

lemma fold_update_fresh:
  "distinct (map fst ps) \<Longrightarrow> fst ` set ps \<inter> fst ` set acc = {} \<Longrightarrow>
   fold (\<lambda>(k, v). AList.update k v) ps acc = acc @ ps"
proof (induction ps arbitrary: acc)
  case Nil
  then show ?case by simp
next
  case (Cons p ps)
  obtain a b where p: "p = (a, b)" by (cases p)
  have "AList.update a b acc = acc @ [(a, b)]"
    using Cons.prems by (intro update_fresh) (auto simp: p)
  moreover have "fold (\<lambda>(k, v). AList.update k v) ps (acc @ [(a, b)]) = (acc @ [(a, b)]) @ ps"
    using Cons.prems by (intro Cons.IH) (auto simp: p)
  ultimately show ?case by (simp add: p)
qed

lemma dict_of_distinct: "distinct (map fst ps) \<Longrightarrow> dict_of ps = ps"
  by (simp add: dict_of_def fold_update_fresh)




lemma filter_first_occurrences:
  "filter Q (first_occurrences xs) = first_occurrences (filter Q xs)"
proof (induction xs)
  case Nil
  then show ?case by simp
next
  case (Cons x xs)
  have swap: "filter Q (filter (\<lambda>y. y \<noteq> x) ys) = filter (\<lambda>y. y \<noteq> x) (filter Q ys)" for ys
    by (induction ys) auto
  have drop: "filter (\<lambda>y. y \<noteq> x) (filter Q ys) = filter Q ys" if "\<not> Q x" for ys
    using that by (induction ys) auto
  show ?case
  proof (cases "Q x")
    case True
    have "filter Q (first_occurrences (x # xs)) = x # filter Q (filter (\<lambda>y. y \<noteq> x) (first_occurrences xs))"
      using True by (simp del: filter_filter)
    also have "\<dots> = x # filter (\<lambda>y. y \<noteq> x) (filter Q (first_occurrences xs))"
      by (simp only: swap)
    also have "\<dots> = first_occurrences (filter Q (x # xs))"
      using True by (simp add: Cons.IH del: filter_filter)
    finally show ?thesis .
  next
    case False
    have "filter Q (first_occurrences (x # xs)) = filter Q (filter (\<lambda>y. y \<noteq> x) (first_occurrences xs))"
      using False by (simp del: filter_filter)
    also have "\<dots> = filter (\<lambda>y. y \<noteq> x) (filter Q (first_occurrences xs))"
      by (rule swap)
    also have "\<dots> = filter Q (first_occurrences xs)"
      by (rule drop [OF False])
    finally show ?thesis using False Cons.IH by simp
  qed
qed

lemma set_first_occurrences [simp]: "set (first_occurrences xs) = set xs"
  by (induction xs) auto

lemma distinct_first_occurrences [simp]: "distinct (first_occurrences xs)"
  by (induction xs) auto

lemma first_occurrences_distinct: "distinct xs \<Longrightarrow> first_occurrences xs = xs"
proof (induction xs)
  case Nil
  then show ?case by simp
next
  case (Cons x xs)
  then have "filter (\<lambda>y. y \<noteq> x) xs = xs"
    by (intro filter_True) auto
  with Cons show ?case by simp
qed

lemma keys_fold_update:
  "map fst (fold (\<lambda>(k, v). AList.update k v) ps acc) =
     map fst acc @ first_occurrences (filter (\<lambda>k. k \<notin> fst ` set acc) (map fst ps))"
proof (induction ps arbitrary: acc)
  case Nil
  then show ?case by simp
next
  case (Cons p ps)
  obtain a b where p: "p = (a, b)" by (cases p)
  show ?case
  proof (cases "a \<in> fst ` set acc")
    case True
    then have "map fst (AList.update a b acc) = map fst acc"
      by (simp add: update_keys)
    moreover have "fst ` set (AList.update a b acc) = fst ` set acc"
      using True by (auto simp: dom_update)
    ultimately show ?thesis using True by (simp add: p Cons.IH)
  next
    case False
    then have k: "map fst (AList.update a b acc) = map fst acc @ [a]"
      by (simp add: update_keys) 
    have d: "fst ` set (AList.update a b acc) = insert a (fst ` set acc)"
      by (auto simp: dom_update)
    have f: "filter (\<lambda>k. k \<notin> insert a (fst ` set acc)) (map fst ps) =
          filter (\<lambda>y. y \<noteq> a) (filter (\<lambda>k. k \<notin> fst ` set acc) (map fst ps))"
      by (induction ps) auto
    have "map fst (fold (\<lambda>(k, v). AList.update k v) ps (AList.update a b acc)) =
          (map fst acc @ [a]) @
          first_occurrences (filter (\<lambda>y. y \<noteq> a) (filter (\<lambda>k. k \<notin> fst ` set acc) (map fst ps)))"
      unfolding Cons.IH k d f ..
    also have "\<dots> = map fst acc @ a #
          filter (\<lambda>y. y \<noteq> a) (first_occurrences (filter (\<lambda>k. k \<notin> fst ` set acc) (map fst ps)))"
      unfolding filter_first_occurrences by simp
    finally show ?thesis using False by (simp add: p)
  qed
qed

lemma keys_dict_of: "map fst (dict_of ps) = first_occurrences (map fst ps)"
  by (simp add: dict_of_def keys_fold_update)

section \<open>Override precedence\<close>

lemma wf_json_getitem: "wf_json j \<Longrightarrow> getitem j k = Inr v \<Longrightarrow> wf_json v"
  by (cases j) (auto split: option.splits dest: map_of_SomeD)

lemma wf_json_sub_scope: "wf_json j \<Longrightarrow> sub_scope j c k = Inr v \<Longrightarrow> wf_json v"
  by (auto simp: sub_scope_def except_KeyError_def split: sum.splits error.splits dest: wf_json_getitem)

lemma reduce_sinks_keys: "reduce_sinks m = Inr m' \<Longrightarrow> map fst m' = map fst m"
  by (induction m arbitrary: m') (auto split: sum.splits)

lemma reduce_sinks_map_of:
  "reduce_sinks m = Inr m' \<Longrightarrow> map_of m k = Some v \<Longrightarrow> \<exists>s. sink_of v = Inr s \<and> map_of m' k = Some s"
  by (induction m arbitrary: m') (auto split: sum.splits if_splits)

lemma reduce_sinks_map_of_None:
  "reduce_sinks m = Inr m' \<Longrightarrow> map_of m k = None \<Longrightarrow> map_of m' k = None"
  by (induction m arbitrary: m') (auto split: sum.splits if_splits)

lemma map_of_append3_rev:
  assumes "distinct (map fst xs)" "distinct (map fst ys)" "distinct (map fst zs)"
  shows "map_of (rev (xs @ ys @ zs)) k =
     (case map_of zs k of Some v \<Rightarrow> Some v | None \<Rightarrow>
      case map_of ys k of Some v \<Rightarrow> Some v | None \<Rightarrow> map_of xs k)"
  using assms by (simp add: map_of_rev_distinct map_add_def split: option.splits)

lemma wf_json_distinct_keys: "wf_json j \<Longrightarrow> distinct_keys j"
  by (cases j) simp_all

lemma merge3_in_force:
  assumes "distinct_keys g" "distinct_keys m" "distinct_keys y" "merge3 g m y = Inr merged"
  shows "map_of merged k = in_force g m y k"
proof -
  from assms(4) obtain gs ms ys where s: "g = JObj gs" "m = JObj ms" "y = JObj ys"
    and mg: "merged = dict_of (gs @ ms @ ys)"
    by (cases g; cases m; cases y) (auto simp: merge3_def)
  from assms(1-3) have "distinct (map fst gs)" "distinct (map fst ms)" "distinct (map fst ys)"
    by (simp_all add: s)
  then show ?thesis
    by (simp add: mg map_of_dict_of map_of_append3_rev [simplified] in_force_def scope_lookup_def s split: option.splits)
qed


lemma map_of_filter_key:
  "map_of (filter (\<lambda>x. P (fst x)) xs) k = (if P k then map_of xs k else None)"
  by (induction xs) auto

lemma select_partition_strict:
  assumes "distinct (map fst eff)"
  shows "select_partition ''s'' eff = filter (\<lambda>x. \<not> is_regex_key (fst x)) eff"
proof -
  have "distinct (map fst (filter (\<lambda>x. \<not> is_regex_key (fst x)) eff))"
    using assms by (simp add: distinct_map_filter)
  then show ?thesis
    by (simp add: select_partition_def partition_py_def dict_of_distinct)
qed

lemma select_partition_regex:
  "kind \<noteq> ''s'' \<Longrightarrow> select_partition kind eff =
     dict_of (map (\<lambda>x. (regex_body (fst x), snd x)) (filter (\<lambda>x. is_regex_key (fst x)) eff))"
  by (simp add: select_partition_def partition_py_def)




lemma get_rules_Inr:
  assumes "get_rules self col_or_jur kind report = Inr resolved"
  obtains g m y eff where
    "getitem (axis_tree self col_or_jur) ''default'' = Inr g"
    "sub_scope (axis_tree self col_or_jur) (group_name report) ''default'' = Inr m"
    "sub_scope (axis_tree self col_or_jur) (group_name report) (end_of_year report) = Inr y"
    "rules_in_effect g m y = Inr eff"
    "resolved = select_partition kind eff"
  using assms
  by (auto simp: get_rules_def Let_def except_Exception_ValueError_def split: sum.splits)

lemma rules_in_effect_lookup:
  assumes "distinct_keys g" "distinct_keys m" "distinct_keys y" "rules_in_effect g m y = Inr eff"
  shows "distinct (map fst eff)"
    and "in_force g m y k = Some v \<Longrightarrow> \<exists>s. sink_of v = Inr s \<and> map_of eff k = Some s"
    and "in_force g m y k = None \<Longrightarrow> map_of eff k = None"
proof -
  from assms(4) obtain merged where mg: "merge3 g m y = Inr merged" and r: "reduce_sinks merged = Inr eff"
    by (auto simp: rules_in_effect_def split: sum.splits)
  have "distinct (map fst merged)"
    using mg by (auto simp: merge3_def distinct_dict_of split: sum.splits)
  then show "distinct (map fst eff)" by (simp add: reduce_sinks_keys [OF r])
  have l: "map_of merged k = in_force g m y k"
    using assms(1-3) mg by (rule merge3_in_force)
  show "in_force g m y k = Some v \<Longrightarrow> \<exists>s. sink_of v = Inr s \<and> map_of eff k = Some s"
    using reduce_sinks_map_of [OF r] l by simp
  show "in_force g m y k = None \<Longrightarrow> map_of eff k = None"
    using reduce_sinks_map_of_None [OF r] l by simp
qed



section \<open>Regex lookup: first match wins\<close>



lemma keys_filter_key: "map fst (filter (\<lambda>x. P (fst x)) xs) = filter P (map fst xs)"
  by (induction xs) auto


lemma select_partition_regex_keys:
  "kind \<noteq> ''s'' \<Longrightarrow> map fst (select_partition kind eff) =
     first_occurrences (map regex_body (filter is_regex_key (map fst eff)))"
  by (simp add: select_partition_regex keys_dict_of keys_filter_key [symmetric] comp_def)




section \<open>Partition by the regex marker\<close>

lemma str_find_None: "str_find v q = None \<longleftrightarrow> \<not> sublist q v"
  by (induction v) (auto simp: sublist_Cons_right)

lemma str_find_Some:
  "str_find v q = Some i \<Longrightarrow>
     \<exists>post. v = take i v @ q @ post \<and> i \<le> length v \<and>
       (\<forall>pre' post'. v = pre' @ q @ post' \<longrightarrow> i \<le> length pre')"
proof (induction v arbitrary: i)
  case Nil
  then show ?case by (auto split: if_splits)
next
  case (Cons c cs)
  show ?case
  proof (cases "prefix q (c # cs)")
    case True
    with Cons.prems have "i = 0" by simp
    with True show ?thesis by (auto simp: prefix_def)
  next
    case False
    with Cons.prems obtain j where j: "str_find cs q = Some j" "i = Suc j" by auto
    from Cons.IH [OF j(1)] obtain post where
      p: "cs = take j cs @ q @ post" "j \<le> length cs"
         "\<forall>pre' post'. cs = pre' @ q @ post' \<longrightarrow> j \<le> length pre'" by blast
    have "i \<le> length pre'" if "c # cs = pre' @ q @ post'" for pre' post'
    proof (cases pre')
      case Nil
      with that False show ?thesis by (auto simp: prefix_def)
    next
      case (Cons a as)
      with that have "cs = as @ q @ post'" by simp
      with p(3) have "j \<le> length as" by blast
      with Cons j(2) show ?thesis by simp
    qed
    moreover have "c # cs = take i (c # cs) @ q @ post"
      using p(1) j(2) by simp
    ultimately show ?thesis using p(2) j(2) by auto
  qed
qed

lemma is_regex_key_iff: "is_regex_key k \<longleftrightarrow> sublist regex_marker k"
proof -
  have "is_regex_key k \<longleftrightarrow> str_find k regex_marker \<noteq> None"
    by (simp add: is_regex_key_def regex_search_marker_def split: option.splits)
  then show ?thesis by (simp add: str_find_None)
qed

lemma regex_body_eq:
  assumes "is_regex_key k"
  shows "\<exists>pre rest. k = pre @ regex_marker @ rest \<and>
           (\<forall>pre' rest'. k = pre' @ regex_marker @ rest' \<longrightarrow> length pre \<le> length pre') \<and>
           regex_body k = takeWhile (\<lambda>c. c \<noteq> line_feed) rest"
proof -
  from assms obtain i where i: "str_find k regex_marker = Some i"
    by (auto simp: is_regex_key_def regex_search_marker_def split: option.splits)
  from str_find_Some [OF i] obtain post where
    p: "k = take i k @ regex_marker @ post" "i \<le> length k"
       "\<forall>pre' post'. k = pre' @ regex_marker @ post' \<longrightarrow> i \<le> length pre'" by blast
  have len: "length (take i k) = i" using p(2) by simp
  define pre where "pre = take i k"
  have k: "k = pre @ regex_marker @ post" and lp: "length pre = i"
    using p(1) len by (simp_all add: pre_def)
  have "drop (i + length regex_marker) k = post"
    by (simp add: k lp)
  then have "regex_body k = takeWhile (\<lambda>c. c \<noteq> line_feed) post"
    by (simp add: regex_body_def regex_search_marker_def i)
  with k lp p(3) show ?thesis by metis
qed

text \<open>
  Claim C3, as stated, at a regex rule whose pattern body holds a line feed: the key is
  classified as a regex rule, but the regex partition holds it under the text before the
  line feed, not under its pattern body.
\<close>

theorem marker_strip_counterexample:
  "getitem (axis_tree newline_rules ''c'') ''default'' = Inr (JObj [(regex_marker @ ''a'' @ [line_feed] @ ''b'', JStr ''x'')]) \<and>
   is_regex_key (regex_marker @ ''a'' @ [line_feed] @ ''b'') \<and>
   get_rules newline_rules ''c'' ''r'' sample_report = Inr [(''a'', JStr ''x'')] \<and>
   ''a'' @ [line_feed] @ ''b'' \<notin> fst ` set [(''a'', JStr ''x'')]"
proof -
  have "get_rules newline_rules ''c'' ''r'' sample_report = Inr [(''a'', JStr ''x'')]"
    by code_simp
  moreover have "is_regex_key (regex_marker @ ''a'' @ [line_feed] @ ''b'')"
    by code_simp
  moreover have "getitem (axis_tree newline_rules ''c'') ''default'' =
      Inr (JObj [(regex_marker @ ''a'' @ [line_feed] @ ''b'', JStr ''x'')])"
    by (simp add: newline_rules_def newline_key_def axis_tree_def axis_key_def)
  ultimately show ?thesis by simp
qed

text \<open>
  Claim C3, amended. Whenever resolution returns, the strict partition is the mapping in
  effect restricted to the keys without the marker, unchanged and in order, and the regex
  partition is built from the keys with the marker, each under the text that follows its first
  marker occurrence up to the first line feed. A key is classified as a regex rule exactly when
  the marker is a substring of it. Every marked key in effect has its body among the keys of
  the regex partition and is absent from the strict partition; every unmarked key in effect is
  in the strict partition with the value in effect; the keys of the regex partition are exactly
  the bodies of the marked keys.
\<close>

theorem partition_by_marker:
  assumes wf: "wf_json (axis_tree self col_or_jur)"
    and strict: "get_rules self col_or_jur ''s'' report = Inr strict"
    and regex: "get_rules self col_or_jur ''r'' report = Inr regex"
  shows "\<exists>g m y in_effect.
           getitem (axis_tree self col_or_jur) ''default'' = Inr g \<and>
           sub_scope (axis_tree self col_or_jur) (group_name report) ''default'' = Inr m \<and>
           sub_scope (axis_tree self col_or_jur) (group_name report) (end_of_year report) = Inr y \<and>
           rules_in_effect g m y = Inr in_effect \<and>
           strict = filter (\<lambda>x. \<not> is_regex_key (fst x)) in_effect \<and>
           regex = dict_of (map (\<lambda>x. (regex_body (fst x), snd x))
                              (filter (\<lambda>x. is_regex_key (fst x)) in_effect)) \<and>
           (\<forall>k. is_regex_key k \<longleftrightarrow> sublist regex_marker k) \<and>
           (\<forall>k. is_regex_key k \<longrightarrow>
              (\<exists>pre rest. k = pre @ regex_marker @ rest \<and>
                 (\<forall>pre' rest'. k = pre' @ regex_marker @ rest' \<longrightarrow> length pre \<le> length pre') \<and>
                 regex_body k = takeWhile (\<lambda>c. c \<noteq> line_feed) rest)) \<and>
           (\<forall>k \<in> fst ` set in_effect. is_regex_key k \<longrightarrow>
              regex_body k \<in> fst ` set regex \<and> k \<notin> fst ` set strict) \<and>
           (\<forall>k \<in> fst ` set in_effect. \<not> is_regex_key k \<longrightarrow>
              k \<in> fst ` set strict \<and> map_of strict k = map_of in_effect k) \<and>
           fst ` set regex = regex_body ` {k \<in> fst ` set in_effect. is_regex_key k}"
proof -
  from strict obtain g m y eff where
    o: "getitem (axis_tree self col_or_jur) ''default'' = Inr g"
       "sub_scope (axis_tree self col_or_jur) (group_name report) ''default'' = Inr m"
       "sub_scope (axis_tree self col_or_jur) (group_name report) (end_of_year report) = Inr y"
    and eff: "rules_in_effect g m y = Inr eff" and sel: "strict = select_partition ''s'' eff"
    by (rule get_rules_Inr)
  from regex obtain g' m' y' eff' where
    o': "getitem (axis_tree self col_or_jur) ''default'' = Inr g'"
       "sub_scope (axis_tree self col_or_jur) (group_name report) ''default'' = Inr m'"
       "sub_scope (axis_tree self col_or_jur) (group_name report) (end_of_year report) = Inr y'"
    and eff': "rules_in_effect g' m' y' = Inr eff'" and sel': "regex = select_partition ''r'' eff'"
    by (rule get_rules_Inr)
  from o o' have "g' = g" "m' = m" "y' = y" by simp_all
  with eff eff' have same: "eff' = eff" by simp
  have wfs: "distinct_keys g" "distinct_keys m" "distinct_keys y"
    using wf o by (auto dest: wf_json_getitem wf_json_sub_scope wf_json_distinct_keys)
  have d: "distinct (map fst eff)"
    by (rule rules_in_effect_lookup(1) [OF wfs eff])
  have s: "strict = filter (\<lambda>x. \<not> is_regex_key (fst x)) eff"
    unfolding sel by (rule select_partition_strict [OF d])
  have r: "regex = dict_of (map (\<lambda>x. (regex_body (fst x), snd x)) (filter (\<lambda>x. is_regex_key (fst x)) eff))"
    unfolding sel' same by (rule select_partition_regex) simp
  have rk: "fst ` set regex = regex_body ` {k \<in> fst ` set eff. is_regex_key k}"
  proof -
    have "set (map fst regex) = set (map regex_body (filter is_regex_key (map fst eff)))"
      unfolding sel' same by (simp add: select_partition_regex_keys)
    then show ?thesis by auto
  qed
  have marked: "regex_body k \<in> fst ` set regex \<and> k \<notin> fst ` set strict"
    if "k \<in> fst ` set eff" "is_regex_key k" for k
    using that by (auto simp: rk s)
  have unmarked: "k \<in> fst ` set strict \<and> map_of strict k = map_of eff k"
    if "k \<in> fst ` set eff" "\<not> is_regex_key k" for k
    using that map_of_filter_key [of "\<lambda>k. \<not> is_regex_key k" eff k] by (auto simp: s)
  have body: "\<forall>k. is_regex_key k \<longrightarrow>
              (\<exists>pre rest. k = pre @ regex_marker @ rest \<and>
                 (\<forall>pre' rest'. k = pre' @ regex_marker @ rest' \<longrightarrow> length pre \<le> length pre') \<and>
                 regex_body k = takeWhile (\<lambda>c. c \<noteq> line_feed) rest)"
    using regex_body_eq by (intro allI impI)
  have "getitem (axis_tree self col_or_jur) ''default'' = Inr g \<and>
           sub_scope (axis_tree self col_or_jur) (group_name report) ''default'' = Inr m \<and>
           sub_scope (axis_tree self col_or_jur) (group_name report) (end_of_year report) = Inr y \<and>
           rules_in_effect g m y = Inr eff \<and>
           strict = filter (\<lambda>x. \<not> is_regex_key (fst x)) eff \<and>
           regex = dict_of (map (\<lambda>x. (regex_body (fst x), snd x))
                              (filter (\<lambda>x. is_regex_key (fst x)) eff)) \<and>
           (\<forall>k. is_regex_key k \<longleftrightarrow> sublist regex_marker k) \<and>
           (\<forall>k. is_regex_key k \<longrightarrow>
              (\<exists>pre rest. k = pre @ regex_marker @ rest \<and>
                 (\<forall>pre' rest'. k = pre' @ regex_marker @ rest' \<longrightarrow> length pre \<le> length pre') \<and>
                 regex_body k = takeWhile (\<lambda>c. c \<noteq> line_feed) rest)) \<and>
           (\<forall>k \<in> fst ` set eff. is_regex_key k \<longrightarrow>
              regex_body k \<in> fst ` set regex \<and> k \<notin> fst ` set strict) \<and>
           (\<forall>k \<in> fst ` set eff. \<not> is_regex_key k \<longrightarrow>
              k \<in> fst ` set strict \<and> map_of strict k = map_of eff k) \<and>
           fst ` set regex = regex_body ` {k \<in> fst ` set eff. is_regex_key k}"
  proof (intro conjI)
    show "\<forall>k. is_regex_key k \<longleftrightarrow> sublist regex_marker k"
      by (simp add: is_regex_key_iff)
    show "\<forall>k \<in> fst ` set eff. is_regex_key k \<longrightarrow>
              regex_body k \<in> fst ` set regex \<and> k \<notin> fst ` set strict"
      using marked by (intro ballI impI)
    show "\<forall>k \<in> fst ` set eff. \<not> is_regex_key k \<longrightarrow>
              k \<in> fst ` set strict \<and> map_of strict k = map_of eff k"
      using unmarked by (intro ballI impI)
  qed (fact o eff s r rk body)+
  then show ?thesis by (intro exI)
qed

theorem partition_by_marker_witness:
  "wf_json (axis_tree sample_rules ''c'') \<and>
   get_rules sample_rules ''c'' ''s'' sample_report = Inr [(''Foo'', JStr ''y''), (''Only'', JStr ''o'')] \<and>
   get_rules sample_rules ''c'' ''r'' sample_report = Inr [(''^A'', JStr ''x''), (''^AB'', JStr ''y'')] \<and>
   is_regex_key ''_regex_^A'' \<and> \<not> is_regex_key ''Only'' \<and>
   regex_body ''_regex_^A'' \<in> fst ` set [(''^A'', JStr ''x''), (''^AB'', JStr ''y'')] \<and>
   ''_regex_^A'' \<notin> fst ` set [(''Foo'', JStr ''y''), (''Only'', JStr ''o'')] \<and>
   ''Only'' \<in> fst ` set [(''Foo'', JStr ''y''), (''Only'', JStr ''o'')]"
proof -
  let ?g = "JObj [(''Foo'', rule_pair ''g'' ''global''), (''Only'', JStr ''o''),
                  (''_regex_^A'', JStr ''x''), (''_regex_^AB'', JStr ''y'')]"
  let ?m = "JObj [(''Foo'', rule_pair ''m'' ''company'')]"
  let ?y = "JObj [(''Foo'', rule_pair ''y'' ''year'')]"
  let ?eff = "[(''Foo'', JStr ''y''), (''Only'', JStr ''o''),
               (''_regex_^A'', JStr ''x''), (''_regex_^AB'', JStr ''y'')]"
  let ?strict = "[(''Foo'', JStr ''y''), (''Only'', JStr ''o'')]"
  let ?regex = "[(''^A'', JStr ''x''), (''^AB'', JStr ''y'')]"
  have wf: "wf_json (axis_tree sample_rules ''c'')"
    by (simp add: sample_defs)
  have g: "getitem (axis_tree sample_rules ''c'') ''default'' = Inr ?g"
    by (simp add: sample_defs)
  have m: "sub_scope (axis_tree sample_rules ''c'') (group_name sample_report) ''default'' = Inr ?m"
    by (simp add: sample_defs)
  have y: "sub_scope (axis_tree sample_rules ''c'') (group_name sample_report)
             (end_of_year sample_report) = Inr ?y"
    by (simp add: sample_defs)
  have eff: "rules_in_effect ?g ?m ?y = Inr ?eff"
    by code_simp
  have strict: "get_rules sample_rules ''c'' ''s'' sample_report = Inr ?strict"
    by code_simp
  have regex: "get_rules sample_rules ''c'' ''r'' sample_report = Inr ?regex"
    by code_simp
  have marked: "is_regex_key ''_regex_^A''"
    by code_simp
  have unmarked: "\<not> is_regex_key ''Only''"
    by code_simp
  from partition_by_marker [OF wf strict regex] obtain g' m' y' ie where
    o: "getitem (axis_tree sample_rules ''c'') ''default'' = Inr g'"
       "sub_scope (axis_tree sample_rules ''c'') (group_name sample_report) ''default'' = Inr m'"
       "sub_scope (axis_tree sample_rules ''c'') (group_name sample_report)
          (end_of_year sample_report) = Inr y'"
       "rules_in_effect g' m' y' = Inr ie"
    and mk: "\<forall>k \<in> fst ` set ie. is_regex_key k \<longrightarrow>
               regex_body k \<in> fst ` set ?regex \<and> k \<notin> fst ` set ?strict"
    and um: "\<forall>k \<in> fst ` set ie. \<not> is_regex_key k \<longrightarrow>
               k \<in> fst ` set ?strict \<and> map_of ?strict k = map_of ie k"
    apply (elim exE conjE)
    apply (rule that)
    apply assumption+
    done
  from o(1-3) g m y have "g' = ?g" "m' = ?m" "y' = ?y" by simp_all
  with o(4) eff have ie: "ie = ?eff" by simp
  have in1: "''_regex_^A'' \<in> fst ` set ie" and in2: "''Only'' \<in> fst ` set ie"
    by (simp_all add: ie)
  from mk [rule_format, OF in1 marked]
  have a: "regex_body ''_regex_^A'' \<in> fst ` set ?regex \<and> ''_regex_^A'' \<notin> fst ` set ?strict" .
  from um [rule_format, OF in2 unmarked]
  have b: "''Only'' \<in> fst ` set ?strict"
    by (rule conjunct1)
  show ?thesis
    by (intro conjI) (fact wf strict regex marked unmarked a [THEN conjunct1] a [THEN conjunct2] b)+
qed

section \<open>Writing a rule and reading it back\<close>

lemma set_update_subset: "set (AList.update k v al) \<subseteq> insert (k, v) (set al)"
  by (induction al) auto

lemma set_fold_update_subset:
  "set (fold (\<lambda>(k, v). AList.update k v) ps acc) \<subseteq> set ps \<union> set acc"
proof (induction ps arbitrary: acc)
  case Nil
  then show ?case by simp
next
  case (Cons p ps)
  obtain a b where p: "p = (a, b)" by (cases p)
  have "set (fold (\<lambda>(k, v). AList.update k v) ps (AList.update a b acc))
          \<subseteq> set ps \<union> set (AList.update a b acc)"
    by (rule Cons.IH)
  also have "\<dots> \<subseteq> set ps \<union> insert (a, b) (set acc)"
    using set_update_subset [of a b acc] by auto
  finally show ?case by (auto simp: p)
qed

lemma set_dict_of_subset: "set (dict_of ps) \<subseteq> set ps"
  using set_fold_update_subset [of ps "[]"] by (simp add: dict_of_def)

lemma reduce_sinks_total:
  "\<forall>kv \<in> set m. \<exists>s. sink_of (snd kv) = Inr s \<Longrightarrow> \<exists>m'. reduce_sinks m = Inr m'"
  by (induction m) (auto split: sum.splits)

lemma sink_of_rule_value: "is_rule_entry v \<or> is_atom v \<Longrightarrow> \<exists>s. sink_of v = Inr s"
  by (cases v) (auto simp: is_rule_entry_def is_atom_def)

lemma is_scope_items:
  "is_scope v \<Longrightarrow> \<exists>kvs. v = JObj kvs \<and> distinct (map fst kvs) \<and>
      (\<forall>kv \<in> set kvs. is_rule_entry (snd kv) \<or> is_atom (snd kv))"
  by (cases v) (auto simp: is_scope_def list_all_iff)

lemma is_scope_distinct_keys: "is_scope v \<Longrightarrow> distinct_keys v"
  by (cases v) (auto simp: is_scope_def)

lemma is_scope_empty: "is_scope (JObj [])"
  by (simp add: is_scope_def)

lemma rules_in_effect_total:
  assumes "is_scope g" "is_scope m" "is_scope y"
  shows "\<exists>eff. rules_in_effect g m y = Inr eff"
proof -
  from assms obtain gs ms ys where s: "g = JObj gs" "m = JObj ms" "y = JObj ys"
    and v: "\<forall>kv \<in> set gs. is_rule_entry (snd kv) \<or> is_atom (snd kv)"
           "\<forall>kv \<in> set ms. is_rule_entry (snd kv) \<or> is_atom (snd kv)"
           "\<forall>kv \<in> set ys. is_rule_entry (snd kv) \<or> is_atom (snd kv)"
    by (metis is_scope_items)
  have mg: "merge3 g m y = Inr (dict_of (gs @ ms @ ys))"
    by (simp add: merge3_def s)
  have "\<forall>kv \<in> set (dict_of (gs @ ms @ ys)). \<exists>s. sink_of (snd kv) = Inr s"
  proof
    fix kv assume "kv \<in> set (dict_of (gs @ ms @ ys))"
    with set_dict_of_subset have "kv \<in> set (gs @ ms @ ys)" by blast
    with v have "is_rule_entry (snd kv) \<or> is_atom (snd kv)" by auto
    then show "\<exists>s. sink_of (snd kv) = Inr s" by (rule sink_of_rule_value)
  qed
  then obtain eff where "reduce_sinks (dict_of (gs @ ms @ ys)) = Inr eff"
    using reduce_sinks_total by blast
  then show ?thesis by (auto simp: rules_in_effect_def mg)
qed

lemma strict_lookup_year:
  assumes g: "getitem (axis_tree self col_or_jur) ''default'' = Inr g"
    and m: "sub_scope (axis_tree self col_or_jur) (group_name report) ''default'' = Inr m"
    and y: "sub_scope (axis_tree self col_or_jur) (group_name report) (end_of_year report) = Inr y"
    and sc: "is_scope g" "is_scope m" "is_scope y"
    and v: "scope_lookup y source = Some v" and s: "sink_of v = Inr s"
    and u: "\<not> is_regex_key source"
  shows "get_sink_from_strict self report source col_or_jur = Inr s"
proof -
  from rules_in_effect_total [OF sc] obtain eff where eff: "rules_in_effect g m y = Inr eff" ..
  have dk: "distinct_keys g" "distinct_keys m" "distinct_keys y"
    using sc by (auto dest: is_scope_distinct_keys)
  note lk = rules_in_effect_lookup [OF dk eff]
  have "in_force g m y source = Some v" using v by (simp add: in_force_def)
  from lk(2) [OF this] s have e: "map_of eff source = Some s" by auto
  have res: "get_rules self col_or_jur ''s'' report = Inr (select_partition ''s'' eff)"
    by (simp add: get_rules_def g m y eff except_Exception_ValueError_def)
  have "map_of (select_partition ''s'' eff) source = Some s"
    using e u map_of_filter_key [of "\<lambda>k. \<not> is_regex_key k" eff source]
    by (simp add: select_partition_strict [OF lk(1)])
  then show ?thesis
    by (simp add: get_sink_from_strict_def res except_KeyError_def)
qed


lemma is_rule_entry_rule_pair: "is_rule_entry (rule_pair sink justification)"
  by (simp add: is_rule_entry_def rule_pair_def is_atom_def)

lemma is_scope_singleton: "is_rule_entry pair \<Longrightarrow> is_scope (JObj [(source, pair)])"
  by (simp add: is_scope_def)

lemma is_scope_update:
  assumes "is_scope (JObj items)" "is_rule_entry pair"
  shows "is_scope (JObj (AList.update source pair items))"
proof -
  have "\<forall>kv \<in> set (AList.update source pair items). is_rule_entry (snd kv) \<or> is_atom (snd kv)"
    using assms set_update_subset [of source pair items]
    by (auto simp: is_scope_def list_all_iff)
  then show ?thesis
    using assms(1) by (simp add: is_scope_def list_all_iff distinct_update)
qed

lemma conforming_axis_company:
  assumes "conforming_axis (JObj scopes)" "map_of scopes company = Some cv" "company \<noteq> ''default''"
  shows "is_company cv"
proof -
  from assms(2) have "(company, cv) \<in> set scopes" by (rule map_of_SomeD)
  with assms(1,3) show ?thesis by (auto simp: conforming_axis_def list_all_iff)
qed

lemma is_company_scope:
  assumes "is_company (JObj subs)" "map_of subs k = Some sv"
  shows "is_scope sv"
proof -
  from assms(2) have "(k, sv) \<in> set subs" by (rule map_of_SomeD)
  with assms(1) show ?thesis by (auto simp: is_company_def list_all_iff)
qed

lemma sub_scope_JObj:
  "sub_scope (JObj scopes) company k =
     (case map_of scopes company of
        None \<Rightarrow> Inr (JObj [])
      | Some cv \<Rightarrow> except_KeyError (getitem cv k) (Inr (JObj [])))"
  by (simp add: sub_scope_def except_KeyError_def split: option.splits)

lemma assign_nested_conforming:
  assumes conf: "conforming_axis t" and company: "company \<noteq> ''default''"
    and pair: "is_rule_entry pair"
  shows "\<exists>t' g y m. assign_nested t company scope source pair = Inr t' \<and>
           getitem t ''default'' = Inr g \<and> getitem t' ''default'' = Inr g \<and> is_scope g \<and>
           sub_scope t' company scope = Inr y \<and> is_scope y \<and> scope_lookup y source = Some pair \<and>
           sub_scope t' company ''default'' = Inr m \<and> is_scope m"
proof -
  from conf obtain scopes where t: "t = JObj scopes"
    by (cases t) (auto simp: conforming_axis_def)
  from conf obtain g where g: "map_of scopes ''default'' = Some g" "is_scope g"
    by (auto simp: conforming_axis_def t split: option.splits)
  show ?thesis
  proof (cases "map_of scopes company")
    case None
    let ?new = "JObj [(source, pair)]"
    let ?t' = "JObj (AList.update company (JObj [(scope, ?new)]) scopes)"
    have "assign_nested t company scope source pair = Inr ?t'"
      by (simp add: assign_nested_def assign_source_def assign_scope_def assign_company_def
            except_KeyError_def t None)
    moreover have "getitem ?t' ''default'' = Inr g"
      using company g by (simp add: update_conv')
    moreover have "sub_scope ?t' company scope = Inr ?new"
      by (simp add: sub_scope_JObj update_conv' except_KeyError_def)
    moreover have "\<exists>m. sub_scope ?t' company ''default'' = Inr m \<and> is_scope m"
      using pair by (auto simp: sub_scope_JObj update_conv' except_KeyError_def is_scope_def)
    moreover have "is_scope ?new" using pair by (rule is_scope_singleton)
    ultimately show ?thesis using g by (auto simp: t scope_lookup_def)
  next
    case (Some cv)
    from conforming_axis_company [OF conf [unfolded t] Some company] have cvc: "is_company cv" .
    then obtain subs where cv: "cv = JObj subs" by (cases cv) (auto simp: is_company_def)
    show ?thesis
    proof (cases "map_of subs scope")
      case None
      let ?new = "JObj [(source, pair)]"
      let ?subs' = "AList.update scope ?new subs"
      let ?t' = "JObj (AList.update company (JObj ?subs') scopes)"
      have "assign_nested t company scope source pair = Inr ?t'"
        by (simp add: assign_nested_def assign_source_def assign_scope_def
              except_KeyError_def t Some cv None)
      moreover have "getitem ?t' ''default'' = Inr g"
        using company g by (simp add: update_conv')
      moreover have "sub_scope ?t' company scope = Inr ?new"
        by (simp add: sub_scope_JObj update_conv' except_KeyError_def)
      moreover have "\<exists>m. sub_scope ?t' company ''default'' = Inr m \<and> is_scope m"
      proof (cases "scope = ''default''")
        case True
        then show ?thesis
          using pair by (simp add: sub_scope_JObj update_conv' except_KeyError_def is_scope_def)
      next
        case False
        show ?thesis
        proof (cases "map_of subs ''default''")
          case None
          with False show ?thesis
            by (simp add: sub_scope_JObj update_conv' except_KeyError_def is_scope_empty)
        next
          case (Some d)
          with cvc cv have "is_scope d" by (auto dest: is_company_scope)
          with Some False show ?thesis
            by (simp add: sub_scope_JObj update_conv' except_KeyError_def)
        qed
      qed
      moreover have "is_scope ?new" using pair by (rule is_scope_singleton)
      ultimately show ?thesis using g by (auto simp: t scope_lookup_def)
    next
      case (Some sv)
      with cvc cv have svs: "is_scope sv" by (auto dest: is_company_scope)
      then obtain items where sv: "sv = JObj items" by (cases sv) (auto simp: is_scope_def)
      let ?new = "JObj (AList.update source pair items)"
      let ?subs' = "AList.update scope ?new subs"
      let ?t' = "JObj (AList.update company (JObj ?subs') scopes)"
      have "assign_nested t company scope source pair = Inr ?t'"
        by (simp add: assign_nested_def assign_source_def except_KeyError_def t
              \<open>map_of scopes company = Some cv\<close> cv Some sv)
      moreover have "getitem ?t' ''default'' = Inr g"
        using company g by (simp add: update_conv')
      moreover have "sub_scope ?t' company scope = Inr ?new"
        by (simp add: sub_scope_JObj update_conv' except_KeyError_def)
      moreover have new: "is_scope ?new"
        using svs pair unfolding sv by (rule is_scope_update)
      moreover have "\<exists>m. sub_scope ?t' company ''default'' = Inr m \<and> is_scope m"
      proof (cases "scope = ''default''")
        case True
        then show ?thesis
          using new by (simp add: sub_scope_JObj update_conv' except_KeyError_def)
      next
        case False
        show ?thesis
        proof (cases "map_of subs ''default''")
          case None
          with False show ?thesis
            by (simp add: sub_scope_JObj update_conv' except_KeyError_def is_scope_empty)
        next
          case (Some d)
          with cvc cv have "is_scope d" by (auto dest: is_company_scope)
          with Some False show ?thesis
            by (simp add: sub_scope_JObj update_conv' except_KeyError_def)
        qed
      qed
      ultimately show ?thesis using g by (auto simp: t scope_lookup_def update_conv')
    qed
  qed
qed


lemma axis_tree_set_axis_tree: "axis_tree (set_axis_tree self col_or_jur t) col_or_jur = t"
  by (simp add: axis_tree_def set_axis_tree_def update_conv')

text \<open>
  Claim C5, as stated, at a report whose company is called \<^verbatim>\<open>"default"\<close>: the write puts the
  year scope into the global scope, where it is a dictionary without a sink, and the lookup
  that follows raises \<^verbatim>\<open>ValueError\<close> instead of returning the sink.
\<close>

theorem write_default_company_counterexample:
  "conforming_axis (axis_tree empty_rules ''c'') \<and> \<not> is_regex_key ''Foo'' \<and>
   write_new_rule empty_rules ''Foo'' ''.'' ''bar'' ''j1'' ''c'' default_company_report =
     Inr \<lparr>r_all =
       [(''column_rules'', JObj [(''default'', JObj [(''2020'', JObj [(''Foo'', rule_pair ''bar'' ''j1'')])])]),
        (''jurisdiction_rules'', JObj [(''default'', JObj [])])]\<rparr> \<and>
   get_sink_from_strict
     \<lparr>r_all =
       [(''column_rules'', JObj [(''default'', JObj [(''2020'', JObj [(''Foo'', rule_pair ''bar'' ''j1'')])])]),
        (''jurisdiction_rules'', JObj [(''default'', JObj [])])]\<rparr>
     default_company_report ''Foo'' ''c'' = Inl ValueError"
proof -
  have "conforming_axis (axis_tree empty_rules ''c'')"
    by code_simp
  moreover have "\<not> is_regex_key ''Foo''"
    by code_simp
  moreover have "write_new_rule empty_rules ''Foo'' ''.'' ''bar'' ''j1'' ''c'' default_company_report =
     Inr \<lparr>r_all =
       [(''column_rules'', JObj [(''default'', JObj [(''2020'', JObj [(''Foo'', rule_pair ''bar'' ''j1'')])])]),
        (''jurisdiction_rules'', JObj [(''default'', JObj [])])]\<rparr>"
    by code_simp
  moreover have "get_sink_from_strict
     \<lparr>r_all =
       [(''column_rules'', JObj [(''default'', JObj [(''2020'', JObj [(''Foo'', rule_pair ''bar'' ''j1'')])])]),
        (''jurisdiction_rules'', JObj [(''default'', JObj [])])]\<rparr>
     default_company_report ''Foo'' ''c'' = Inl ValueError"
    by code_simp
  ultimately show ?thesis by (intro conjI)
qed

text \<open>
  Claim C5, amended. For an axis tree that conforms to the data model, a report whose company
  is not called \<^verbatim>\<open>"default"\<close> and a source key without the regex marker, \<open>write_new_rule\<close> in
  company-year mode succeeds, whether or not the company and the year scope exist; afterwards
  the year scope of the report holds the new rule entry under the source key, and
  \<open>get_sink_from_strict\<close> on the changed rule book returns exactly the sink.
\<close>

theorem write_then_strict_lookup:
  assumes conf: "conforming_axis (axis_tree self col_or_jur)"
    and company: "group_name report \<noteq> ''default''"
    and unmarked: "\<not> is_regex_key source"
  shows "\<exists>self'. write_new_rule self source ''.'' sink justification col_or_jur report = Inr self' \<and>
           (\<exists>y. sub_scope (axis_tree self' col_or_jur) (group_name report) (end_of_year report) = Inr y \<and>
                scope_lookup y source = Some (rule_pair sink justification)) \<and>
           get_sink_from_strict self' report source col_or_jur = Inr (JStr sink)"
proof -
  let ?pair = "rule_pair sink justification"
  from assign_nested_conforming [OF conf company is_rule_entry_rule_pair,
      of "end_of_year report" source sink justification]
  obtain t' g y m where
    w: "assign_nested (axis_tree self col_or_jur) (group_name report) (end_of_year report) source ?pair = Inr t'"
    and g: "getitem t' ''default'' = Inr g" "is_scope g"
    and y: "sub_scope t' (group_name report) (end_of_year report) = Inr y" "is_scope y"
           "scope_lookup y source = Some ?pair"
    and m: "sub_scope t' (group_name report) ''default'' = Inr m" "is_scope m"
    by blast
  let ?self' = "set_axis_tree self col_or_jur t'"
  have tree: "axis_tree ?self' col_or_jur = t'" by (rule axis_tree_set_axis_tree)
  have "write_new_rule self source ''.'' sink justification col_or_jur report = Inr ?self'"
    by (simp add: write_new_rule_def Let_def w)
  moreover have "sink_of ?pair = Inr (JStr sink)" by (simp add: rule_pair_def)
  then have "get_sink_from_strict ?self' report source col_or_jur = Inr (JStr sink)"
    using g m y unmarked
    by (intro strict_lookup_year [where g = g and m = m and y = y and v = ?pair]) (simp_all add: tree)
  ultimately show ?thesis using y by (auto simp: tree)
qed

theorem write_then_strict_lookup_witness:
  "conforming_axis (axis_tree sample_rules ''c'') \<and> group_name sample_report \<noteq> ''default'' \<and>
   \<not> is_regex_key ''Bar'' \<and>
   (\<exists>self'. write_new_rule sample_rules ''Bar'' ''.'' ''baz'' ''j1'' ''c'' sample_report = Inr self' \<and>
      get_sink_from_strict self' sample_report ''Bar'' ''c'' = Inr (JStr ''baz''))"
proof -
  have conf: "conforming_axis (axis_tree sample_rules ''c'')"
    by code_simp
  have company: "group_name sample_report \<noteq> ''default''"
    by (simp add: sample_report_def)
  have unmarked: "\<not> is_regex_key ''Bar''"
    by code_simp
  from write_then_strict_lookup [OF conf company unmarked, of "''baz''" "''j1''"]
  obtain self' where
    "write_new_rule sample_rules ''Bar'' ''.'' ''baz'' ''j1'' ''c'' sample_report = Inr self'"
    "get_sink_from_strict self' sample_report ''Bar'' ''c'' = Inr (JStr ''baz'')"
    apply (elim exE conjE)
    apply (rule that)
     apply assumption+
    done
  then have "\<exists>self'. write_new_rule sample_rules ''Bar'' ''.'' ''baz'' ''j1'' ''c'' sample_report = Inr self' \<and>
      get_sink_from_strict self' sample_report ''Bar'' ''c'' = Inr (JStr ''baz'')"
    by (intro exI conjI)
  with conf company unmarked show ?thesis by (intro conjI)
qed


section \<open>Justification export\<close>



















text \<open>
  A rule entry stored directly under the global scope of an axis yields no record: the walk
  reaches its fields, not the entry, at the depth where records are written.
\<close>

lemma export_skips_global_entry:
  "conforming_rules global_only_rules \<and>
   export_justifications_to_csv (\<lambda>v. []) global_only_rules = Inr csv_header"
  by code_simp




section \<open>Loading a rule book\<close>




section \<open>Jurisdiction normalisation\<close>

lemma neatify_ITA: "neatify ''ITA'' = ''ita''" by code_simp
lemma neatify_Italy: "neatify ''Italy'' = ''italy''" by code_simp
lemma neatify_empty: "neatify [] = []" by code_simp
lemma upper_ita: "upper ''ita'' = ''ITA''" by code_simp
lemma upper_italy: "upper ''italy'' = ''ITALY''" by code_simp
lemma upper_empty: "upper [] = []" by code_simp

lemma auto_jurisdiction_unresolved:
  assumes "upper (neatify z) \<notin> ISO3166_ALPHA3 ref"
    and "CONTRY_TO_ISO3166_MAPPING ref (neatify z) = None"
    and "neatify z = [] \<or> my_search_fuzzy ref (neatify z) = Inl LookupError"
  shows "auto_jurisdiction_to_iso3166 ref z = (if neatify z = [] then ''<empty>'' else neatify z)"
  using assms by (auto simp: auto_jurisdiction_to_iso3166_def Let_def fuzzy_code_def)

text \<open>
  Claim C7, as stated, at the input \<^verbatim>\<open>"?"\<close>: it is not empty, it is no code, it has no entry in
  the name index and the fuzzy search finds nothing for it, yet the result is the sentinel
  \<^verbatim>\<open>"<empty>"\<close>, the same as for the empty input, and not its cleaned text, which is empty.
\<close>

theorem empty_sentinel_counterexample:
  "''?'' \<noteq> [] \<and> upper ''?'' \<notin> ISO3166_ALPHA3 sample_reference \<and>
   CONTRY_TO_ISO3166_MAPPING sample_reference ''?'' = None \<and>
   my_search_fuzzy sample_reference ''?'' = Inl LookupError \<and>
   neatify ''?'' = [] \<and>
   auto_jurisdiction_to_iso3166 sample_reference ''?'' = ''<empty>'' \<and>
   auto_jurisdiction_to_iso3166 sample_reference [] = ''<empty>''"
  by code_simp

text \<open>
  Claim C7, amended. \<^verbatim>\<open>"ITA"\<close> gives \<^verbatim>\<open>"ITA"\<close> when that is a code of the reference set;
  \<^verbatim>\<open>"Italy"\<close> gives \<^verbatim>\<open>"ITA"\<close> through the name index; the empty input gives the sentinel
  \<^verbatim>\<open>"<empty>"\<close>; an input whose cleaned text is not empty, is no code, has no entry in the name
  index and no fuzzy hit gives its cleaned text; and an input whose cleaned text is empty gives
  the sentinel, whether the input itself is empty or not.
\<close>

theorem jurisdiction_normalisation:
  "(''ITA'' \<in> ISO3166_ALPHA3 ref \<longrightarrow> auto_jurisdiction_to_iso3166 ref ''ITA'' = ''ITA'') \<and>
   (''ITALY'' \<notin> ISO3166_ALPHA3 ref \<and> CONTRY_TO_ISO3166_MAPPING ref ''italy'' = Some ''ITA'' \<longrightarrow>
      auto_jurisdiction_to_iso3166 ref ''Italy'' = ''ITA'') \<and>
   ([] \<notin> ISO3166_ALPHA3 ref \<and> CONTRY_TO_ISO3166_MAPPING ref [] = None \<longrightarrow>
      auto_jurisdiction_to_iso3166 ref [] = ''<empty>'') \<and>
   (\<forall>z. neatify z \<noteq> [] \<and> upper (neatify z) \<notin> ISO3166_ALPHA3 ref \<and>
        CONTRY_TO_ISO3166_MAPPING ref (neatify z) = None \<and>
        my_search_fuzzy ref (neatify z) = Inl LookupError \<longrightarrow>
        auto_jurisdiction_to_iso3166 ref z = neatify z) \<and>
   (\<forall>z. neatify z = [] \<and> [] \<notin> ISO3166_ALPHA3 ref \<and> CONTRY_TO_ISO3166_MAPPING ref [] = None \<longrightarrow>
        auto_jurisdiction_to_iso3166 ref z = ''<empty>'')"
proof (intro conjI allI impI)
  assume "''ITA'' \<in> ISO3166_ALPHA3 ref"
  then show "auto_jurisdiction_to_iso3166 ref ''ITA'' = ''ITA''"
    by (simp add: auto_jurisdiction_to_iso3166_def neatify_ITA upper_ita)
next
  assume "''ITALY'' \<notin> ISO3166_ALPHA3 ref \<and> CONTRY_TO_ISO3166_MAPPING ref ''italy'' = Some ''ITA''"
  then show "auto_jurisdiction_to_iso3166 ref ''Italy'' = ''ITA''"
    by (simp add: auto_jurisdiction_to_iso3166_def neatify_Italy upper_italy)
next
  assume "[] \<notin> ISO3166_ALPHA3 ref \<and> CONTRY_TO_ISO3166_MAPPING ref [] = None"
  then show "auto_jurisdiction_to_iso3166 ref [] = ''<empty>''"
    using auto_jurisdiction_unresolved [of "[]" ref] by (simp add: neatify_empty upper_empty)
next
  fix z
  assume "neatify z \<noteq> [] \<and> upper (neatify z) \<notin> ISO3166_ALPHA3 ref \<and>
        CONTRY_TO_ISO3166_MAPPING ref (neatify z) = None \<and>
        my_search_fuzzy ref (neatify z) = Inl LookupError"
  then show "auto_jurisdiction_to_iso3166 ref z = neatify z"
    using auto_jurisdiction_unresolved [of z ref] by simp
next
  fix z
  assume "neatify z = [] \<and> [] \<notin> ISO3166_ALPHA3 ref \<and> CONTRY_TO_ISO3166_MAPPING ref [] = None"
  then show "auto_jurisdiction_to_iso3166 ref z = ''<empty>''"
    using auto_jurisdiction_unresolved [of z ref] by (simp add: upper_empty)
qed

theorem jurisdiction_normalisation_witness:
  "''ITA'' \<in> ISO3166_ALPHA3 sample_reference \<and>
   auto_jurisdiction_to_iso3166 sample_reference ''ITA'' = ''ITA'' \<and>
   ''ITALY'' \<notin> ISO3166_ALPHA3 sample_reference \<and>
   CONTRY_TO_ISO3166_MAPPING sample_reference ''italy'' = Some ''ITA'' \<and>
   auto_jurisdiction_to_iso3166 sample_reference ''Italy'' = ''ITA'' \<and>
   auto_jurisdiction_to_iso3166 sample_reference [] = ''<empty>'' \<and>
   neatify ''Qqq 1'' = ''qqq'' \<and> my_search_fuzzy sample_reference ''qqq'' = Inl LookupError \<and>
   auto_jurisdiction_to_iso3166 sample_reference ''Qqq 1'' = ''qqq'' \<and>
   neatify ''12'' = [] \<and> auto_jurisdiction_to_iso3166 sample_reference ''12'' = ''<empty>''"
proof -
  note T = jurisdiction_normalisation [of sample_reference]
  have h1: "''ITA'' \<in> ISO3166_ALPHA3 sample_reference"
    by code_simp
  have h2: "''ITALY'' \<notin> ISO3166_ALPHA3 sample_reference \<and>
            CONTRY_TO_ISO3166_MAPPING sample_reference ''italy'' = Some ''ITA''"
    by code_simp
  have h3: "[] \<notin> ISO3166_ALPHA3 sample_reference \<and> CONTRY_TO_ISO3166_MAPPING sample_reference [] = None"
    by code_simp
  have n4: "neatify ''Qqq 1'' = ''qqq''"
    by code_simp
  have f4: "my_search_fuzzy sample_reference ''qqq'' = Inl LookupError"
    by code_simp
  have h4: "neatify ''Qqq 1'' \<noteq> [] \<and> upper (neatify ''Qqq 1'') \<notin> ISO3166_ALPHA3 sample_reference \<and>
        CONTRY_TO_ISO3166_MAPPING sample_reference (neatify ''Qqq 1'') = None \<and>
        my_search_fuzzy sample_reference (neatify ''Qqq 1'') = Inl LookupError"
    by code_simp
  have n5: "neatify ''12'' = []"
    by code_simp
  from T [THEN conjunct1, rule_format, OF h1]
  have 1: "auto_jurisdiction_to_iso3166 sample_reference ''ITA'' = ''ITA''" .
  from T [THEN conjunct2, THEN conjunct1, rule_format, OF h2]
  have 2: "auto_jurisdiction_to_iso3166 sample_reference ''Italy'' = ''ITA''" .
  from T [THEN conjunct2, THEN conjunct2, THEN conjunct1, rule_format, OF h3]
  have 3: "auto_jurisdiction_to_iso3166 sample_reference [] = ''<empty>''" .
  from T [THEN conjunct2, THEN conjunct2, THEN conjunct2, THEN conjunct1, rule_format, OF h4]
  have 4: "auto_jurisdiction_to_iso3166 sample_reference ''Qqq 1'' = ''qqq''"
    by (simp only: n4)
  have h5: "neatify ''12'' = [] \<and> [] \<notin> ISO3166_ALPHA3 sample_reference \<and>
            CONTRY_TO_ISO3166_MAPPING sample_reference [] = None"
    using n5 h3 by (intro conjI) (elim conjE, assumption)+
  from T [THEN conjunct2, THEN conjunct2, THEN conjunct2, THEN conjunct2, rule_format, OF h5]
  have 5: "auto_jurisdiction_to_iso3166 sample_reference ''12'' = ''<empty>''" .
  from h1 1 h2 2 3 n4 f4 4 n5 5 show ?thesis
    by (elim conjE, intro conjI)
qed


section \<open>Table orientation\<close>

lemma scan_rows_first:
  assumes "\<forall>r \<in> set before. count_CbCR_terms (to_string r) < min_nb_cols report \<and>
             count_countries ref r < min_nb_jurs_per_table report"
  shows "scan_rows ref to_string report (before @ row # after) =
           (if min_nb_cols report \<le> count_CbCR_terms (to_string row) then Inr False
            else if min_nb_jurs_per_table report \<le> count_countries ref row then Inr True
            else scan_rows ref to_string report after)"
  using assms by (induction before) auto

lemma scan_rows_none:
  assumes "\<forall>r \<in> set rows. count_CbCR_terms (to_string r) < min_nb_cols report \<and>
             count_countries ref r < min_nb_jurs_per_table report"
  shows "scan_rows ref to_string report rows = Inl ValueError"
  using assms by (induction rows) auto

lemma scan_columns_hit:
  assumes "\<exists>column \<in> set cols. min_nb_jurs_per_table report \<le> count_countries ref column"
  shows "scan_columns ref to_string report cols rows = Inr False"
  using assms by (induction cols) auto

lemma scan_columns_miss:
  assumes "\<not> (\<exists>column \<in> set cols. min_nb_jurs_per_table report \<le> count_countries ref column)"
  shows "scan_columns ref to_string report cols rows = scan_rows ref to_string report rows"
  using assms by (induction cols) auto

text \<open>
  Claim C8. If some column holds at least \<open>min_nb_jurs_per_table\<close> jurisdiction-like cells the
  answer is "not transposed" whatever the rows are. Otherwise the first row that reaches one of
  the two thresholds decides: "not transposed" if it holds at least \<open>min_nb_cols\<close> terms,
  "transposed" if it does not but holds at least \<open>min_nb_jurs_per_table\<close> jurisdiction-like cells;
  and if no row reaches a threshold the classifier raises \<^verbatim>\<open>ValueError\<close>.
\<close>

theorem orientation_decision:
  "((\<exists>column \<in> set (table_columns df). min_nb_jurs_per_table report \<le> count_countries ref column) \<longrightarrow>
      (\<forall>rows. is_transposed ref to_string (df\<lparr>table_rows := rows\<rparr>) report = Inr False)) \<and>
   (\<not> (\<exists>column \<in> set (table_columns df). min_nb_jurs_per_table report \<le> count_countries ref column) \<longrightarrow>
      (\<forall>before row after.
         table_rows df = before @ row # after \<and>
         (\<forall>r \<in> set before. count_CbCR_terms (to_string r) < min_nb_cols report \<and>
                            count_countries ref r < min_nb_jurs_per_table report) \<longrightarrow>
         (min_nb_cols report \<le> count_CbCR_terms (to_string row) \<longrightarrow>
            is_transposed ref to_string df report = Inr False) \<and>
         (count_CbCR_terms (to_string row) < min_nb_cols report \<and>
          min_nb_jurs_per_table report \<le> count_countries ref row \<longrightarrow>
            is_transposed ref to_string df report = Inr True)) \<and>
      ((\<forall>r \<in> set (table_rows df). count_CbCR_terms (to_string r) < min_nb_cols report \<and>
                                  count_countries ref r < min_nb_jurs_per_table report) \<longrightarrow>
         is_transposed ref to_string df report = Inl ValueError))"
proof (intro conjI impI allI)
  fix rows
  assume "\<exists>column \<in> set (table_columns df). min_nb_jurs_per_table report \<le> count_countries ref column"
  then show "is_transposed ref to_string (df\<lparr>table_rows := rows\<rparr>) report = Inr False"
    by (simp add: is_transposed_def scan_columns_hit)
next
  fix before row after
  assume miss: "\<not> (\<exists>column \<in> set (table_columns df). min_nb_jurs_per_table report \<le> count_countries ref column)"
    and rows: "table_rows df = before @ row # after \<and>
         (\<forall>r \<in> set before. count_CbCR_terms (to_string r) < min_nb_cols report \<and>
                            count_countries ref r < min_nb_jurs_per_table report)"
    and hit: "min_nb_cols report \<le> count_CbCR_terms (to_string row)"
  from rows hit show "is_transposed ref to_string df report = Inr False"
    by (simp add: is_transposed_def scan_columns_miss [OF miss] scan_rows_first)
next
  fix before row after
  assume miss: "\<not> (\<exists>column \<in> set (table_columns df). min_nb_jurs_per_table report \<le> count_countries ref column)"
    and rows: "table_rows df = before @ row # after \<and>
         (\<forall>r \<in> set before. count_CbCR_terms (to_string r) < min_nb_cols report \<and>
                            count_countries ref r < min_nb_jurs_per_table report)"
    and hit: "count_CbCR_terms (to_string row) < min_nb_cols report \<and>
          min_nb_jurs_per_table report \<le> count_countries ref row"
  from rows hit show "is_transposed ref to_string df report = Inr True"
    by (simp add: is_transposed_def scan_columns_miss [OF miss] scan_rows_first)
next
  assume miss: "\<not> (\<exists>column \<in> set (table_columns df). min_nb_jurs_per_table report \<le> count_countries ref column)"
    and none: "\<forall>r \<in> set (table_rows df). count_CbCR_terms (to_string r) < min_nb_cols report \<and>
                                  count_countries ref r < min_nb_jurs_per_table report"
  from none show "is_transposed ref to_string df report = Inl ValueError"
    by (simp add: is_transposed_def scan_columns_miss [OF miss] scan_rows_none)
qed


theorem orientation_decision_witness:
  "is_transposed sample_reference (join '' '') long_table sample_report = Inr False \<and>
   is_transposed sample_reference (join '' '') header_table sample_report = Inr False \<and>
   is_transposed sample_reference (join '' '') wide_table sample_report = Inr True \<and>
   is_transposed sample_reference (join '' '') blank_table sample_report = Inl ValueError"
proof -
  note T = orientation_decision [of _ sample_report sample_reference "join '' ''"]
  have c1: "\<exists>column \<in> set (table_columns long_table).
              min_nb_jurs_per_table sample_report \<le> count_countries sample_reference column"
    by code_simp
  have "is_transposed sample_reference (join '' '') (long_table\<lparr>table_rows := table_rows long_table\<rparr>)
          sample_report = Inr False"
    by (rule T [of long_table, THEN conjunct1, rule_format, OF c1])
  then have 1: "is_transposed sample_reference (join '' '') long_table sample_report = Inr False"
    by simp
  have m2: "\<not> (\<exists>column \<in> set (table_columns header_table).
              min_nb_jurs_per_table sample_report \<le> count_countries sample_reference column)"
    by code_simp
  have r2: "table_rows header_table = [] @ [''x'', ''tax paid'', ''profit''] # [[''Italy'', ''1'', ''2'']] \<and>
            (\<forall>r \<in> set []. count_CbCR_terms (join '' '' r) < min_nb_cols sample_report \<and>
                            count_countries sample_reference r < min_nb_jurs_per_table sample_report)"
    by (simp add: header_table_def)
  have h2: "min_nb_cols sample_report \<le> count_CbCR_terms (join '' '' [''x'', ''tax paid'', ''profit''])"
    by code_simp
  have 2: "is_transposed sample_reference (join '' '') header_table sample_report = Inr False"
    by (rule T [of header_table, THEN conjunct2, rule_format, OF m2, THEN conjunct1, rule_format,
          OF r2, THEN conjunct1, rule_format, OF h2])
  have m3: "\<not> (\<exists>column \<in> set (table_columns wide_table).
              min_nb_jurs_per_table sample_report \<le> count_countries sample_reference column)"
    by code_simp
  have r3: "table_rows wide_table = [] @ [''jurisdiction'', ''Italy'', ''France''] # [] \<and>
            (\<forall>r \<in> set []. count_CbCR_terms (join '' '' r) < min_nb_cols sample_report \<and>
                            count_countries sample_reference r < min_nb_jurs_per_table sample_report)"
    by (simp add: wide_table_def)
  have h3: "count_CbCR_terms (join '' '' [''jurisdiction'', ''Italy'', ''France'']) < min_nb_cols sample_report \<and>
            min_nb_jurs_per_table sample_report \<le>
              count_countries sample_reference [''jurisdiction'', ''Italy'', ''France'']"
    by code_simp
  have 3: "is_transposed sample_reference (join '' '') wide_table sample_report = Inr True"
    by (rule T [of wide_table, THEN conjunct2, rule_format, OF m3, THEN conjunct1, rule_format,
          OF r3, THEN conjunct2, rule_format, OF h3])
  have m4: "\<not> (\<exists>column \<in> set (table_columns blank_table).
              min_nb_jurs_per_table sample_report \<le> count_countries sample_reference column)"
    by code_simp
  have n4: "\<forall>r \<in> set (table_rows blank_table).
              count_CbCR_terms (join '' '' r) < min_nb_cols sample_report \<and>
              count_countries sample_reference r < min_nb_jurs_per_table sample_report"
    by code_simp
  have 4: "is_transposed sample_reference (join '' '') blank_table sample_report = Inl ValueError"
    by (rule T [of blank_table, THEN conjunct2, THEN mp, OF m4, THEN conjunct2, THEN mp, OF n4])
  from 1 2 3 4 show ?thesis by (intro conjI)
qed


section \<open>Fuzzy country search\<close>

lemma field_points_find:
  "field_points accents query vs =
     (case find (\<lambda>v. str_find (accents (lower v)) query \<noteq> None) (List.map_filter (\<lambda>v. v) vs) of
        None \<Rightarrow> None
      | Some v \<Rightarrow> map_option (\<lambda>position. max 5 (30 - 2 * int position))
                   (str_find (accents (lower v)) query))"
proof (induction vs)
  case Nil
  then show ?case by (simp add: List.map_filter_simps)
next
  case (Cons v vs)
  then show ?case
    by (cases v) (auto simp: List.map_filter_simps split: option.splits)
qed

lemma candidate_points_eq: "candidate_points ref query c = substring_points ref query c"
  unfolding candidate_points_def substring_points_def present_fields_def compared_def
    field_points_find by (rule refl)

lemma map_of_add_result:
  "map_of (add_result rs code p) k =
     (if k = code then Some ((case map_of rs code of Some x \<Rightarrow> x | None \<Rightarrow> 0) + p) else map_of rs k)"
  by (simp add: add_result_def update_conv')

lemma distinct_add_result: "distinct (map fst rs) \<Longrightarrow> distinct (map fst (add_result rs code p))"
  by (simp add: add_result_def distinct_update)

lemma distinct_partial_matches:
  "distinct (map fst acc) \<Longrightarrow> distinct (map fst (partial_matches ref query cs acc))"
  by (induction cs arbitrary: acc) (auto simp: distinct_add_result split: option.splits)

lemma map_of_partial_matches:
  "map_of (partial_matches ref query cs acc) code =
     (if list_ex (\<lambda>c. alpha_3 c = code \<and> substring_points ref query c \<noteq> None) cs \<or> map_of acc code \<noteq> None
      then Some ((case map_of acc code of Some x \<Rightarrow> x | None \<Rightarrow> 0) +
                 sum_list (map (\<lambda>c. case substring_points ref query c of Some p \<Rightarrow> p | None \<Rightarrow> 0)
                             (filter (\<lambda>c. alpha_3 c = code) cs)))
      else None)"
proof (induction cs arbitrary: acc)
  case Nil
  then show ?case by auto
next
  case (Cons c cs)
  show ?case
  proof (cases "substring_points ref query c")
    case None
    then show ?thesis
      by (simp add: Cons.IH candidate_points_eq)
  next
    case (Some p)
    then show ?thesis
      by (auto simp: Cons.IH candidate_points_eq map_of_add_result split: option.splits)
  qed
qed

lemma map_of_exact_match:
  "map_of (exact_match ref query) code =
     (case lookup ref query of Some c \<Rightarrow> if alpha_3 c = code then Some 50 else None | None \<Rightarrow> None)"
  by (simp add: exact_match_def map_of_add_result split: option.splits)

lemma distinct_exact_match: "distinct (map fst (exact_match ref query))"
  by (simp add: exact_match_def add_result_def split: option.splits)

lemma map_of_results:
  "map_of (partial_matches ref query (countries ref) (exact_match ref query)) code =
     (if scores ref query code then Some (country_score ref query code) else None)"
  by (auto simp: map_of_partial_matches map_of_exact_match scores_def country_score_def
      split: option.splits)

lemma empty_iff_map_of: "xs = [] \<longleftrightarrow> (\<forall>k. map_of xs k = None)"
  by (cases xs) (auto simp: fun_upd_def split: if_splits)

lemma map_of_sort_key:
  assumes "distinct (map fst xs)"
  shows "map_of (sort_key f xs) = map_of xs" and "distinct (map fst (sort_key f xs))"
proof -
  from assms show d: "distinct (map fst (sort_key f xs))"
    by (simp add: distinct_map)
  from map_of_inject_set [OF d assms] show "map_of (sort_key f xs) = map_of xs"
    by simp
qed

text \<open>
  Claim C9. Let \<open>query\<close> be the query as the search compares it (stripped, in lower case,
  accents removed), and not one of \<^verbatim>\<open>africa\<close>, \<^verbatim>\<open>america\<close>, \<^verbatim>\<open>europe\<close>. The search raises
  \<^verbatim>\<open>LookupError\<close> exactly when no country code scores. Otherwise it returns every code that
  scores, once, with its score: 50 if the exact lookup finds a country of that code, plus, for
  every country of that code in the catalogue, \<open>max 5 (30 - 2 * position)\<close> for the first of its
  fields name, official name and comment that contains the query; and the list is sorted by
  falling score and, for equal scores, by rising code.
\<close>

theorem fuzzy_scoring:
  assumes q: "query = remove_accents ref (lower (strip query0))"
    and nc: "query \<notin> {''africa'', ''america'', ''europe''}"
  shows "(my_search_fuzzy ref query0 = Inl LookupError \<longleftrightarrow> (\<forall>code. \<not> scores ref query code)) \<and>
         (\<forall>results. my_search_fuzzy ref query0 = Inr results \<longrightarrow>
            sorted (map (\<lambda>x. (- snd x, fst x)) results) \<and> distinct (map fst results) \<and>
            (\<forall>code. map_of results code =
               (if scores ref query code then Some (country_score ref query code) else None))) \<and>
         (\<forall>c. candidate_points ref query c = substring_points ref query c)"
proof -
  let ?rs = "partial_matches ref query (countries ref) (exact_match ref query)"
  have run: "my_search_fuzzy ref query0 =
               (if ?rs = [] then Inl LookupError else Inr (sort_key (\<lambda>x. (- snd x, fst x)) ?rs))"
    using nc by (simp add: my_search_fuzzy_def Let_def q [symmetric])
  have d: "distinct (map fst ?rs)"
    by (intro distinct_partial_matches distinct_exact_match)
  have e: "?rs = [] \<longleftrightarrow> (\<forall>code. \<not> scores ref query code)"
    by (simp add: empty_iff_map_of map_of_results)
  have "my_search_fuzzy ref query0 = Inl LookupError \<longleftrightarrow> (\<forall>code. \<not> scores ref query code)"
    using e by (simp add: run)
  moreover have "sorted (map (\<lambda>x. (- snd x, fst x)) results) \<and> distinct (map fst results) \<and>
            (\<forall>code. map_of results code =
               (if scores ref query code then Some (country_score ref query code) else None))"
    if "my_search_fuzzy ref query0 = Inr results" for results
  proof -
    from that have r: "results = sort_key (\<lambda>x. (- snd x, fst x)) ?rs"
      by (simp add: run split: if_splits)
    show ?thesis
      unfolding r using map_of_sort_key [OF d, of "\<lambda>x. (- snd x, fst x)"]
      by (simp add: map_of_results)
  qed
  ultimately show ?thesis using candidate_points_eq by blast
qed


theorem fuzzy_scoring_witness:
  "''republic'' = remove_accents sample_reference (lower (strip '' Republic '')) \<and>
   my_search_fuzzy sample_reference '' Republic '' =
     Inr [(''ZAF'', 30), (''FRA'', 16), (''DEU'', 14), (''ITA'', 14)] \<and>
   sorted (map (\<lambda>x. (- snd x, fst x)) [(''ZAF'', 30 :: int), (''FRA'', 16), (''DEU'', 14), (''ITA'', 14)]) \<and>
   scores sample_reference ''republic'' ''FRA'' \<and>
   country_score sample_reference ''republic'' ''FRA'' = 16 \<and>
   my_search_fuzzy sample_reference ''qqq'' = Inl LookupError \<and>
   \<not> scores sample_reference ''qqq'' ''ITA''"
proof -
  let ?results = "[(''ZAF'', 30 :: int), (''FRA'', 16), (''DEU'', 14), (''ITA'', 14)]"
  have q: "''republic'' = remove_accents sample_reference (lower (strip '' Republic ''))"
    by code_simp
  have nc: "''republic'' \<notin> {''africa'', ''america'', ''europe''}"
    by simp
  have run: "my_search_fuzzy sample_reference '' Republic '' = Inr ?results"
    by code_simp
  note R = fuzzy_scoring [OF q nc, THEN conjunct2, THEN conjunct1, THEN spec, THEN mp, OF run]
  have s: "sorted (map (\<lambda>x. (- snd x, fst x)) ?results)"
    by (rule R [THEN conjunct1])
  have m: "\<forall>code. map_of ?results code =
              (if scores sample_reference ''republic'' code
               then Some (country_score sample_reference ''republic'' code) else None)"
    by (rule R [THEN conjunct2, THEN conjunct2])
  have "map_of ?results ''FRA'' = Some 16"
    by simp
  with m [rule_format, of "''FRA''"]
  have fra: "scores sample_reference ''republic'' ''FRA'' \<and>
             country_score sample_reference ''republic'' ''FRA'' = 16"
    by (simp split: if_splits)
  have q': "''qqq'' = remove_accents sample_reference (lower (strip ''qqq''))"
    by code_simp
  have nc': "''qqq'' \<notin> {''africa'', ''america'', ''europe''}"
    by simp
  have run': "my_search_fuzzy sample_reference ''qqq'' = Inl LookupError"
    by code_simp
  from fuzzy_scoring [OF q' nc', THEN conjunct1] run'
  have "\<forall>code. \<not> scores sample_reference ''qqq'' code"
    by (rule iffD1)
  then have none: "\<not> scores sample_reference ''qqq'' ''ITA''"
    by (rule spec)
  from q run s fra run' none show ?thesis
    by (elim conjE, intro conjI)
qed


section \<open>The read operations leave the rule book as it is\<close>

lemma keepsI:
  assumes "\<And>h r h'. prefix h0 h \<Longrightarrow> m h = (r, h') \<Longrightarrow> prefix h0 h' \<and> (\<forall>x. r = Inr x \<longrightarrow> Q x)"
  shows "keeps h0 Q m"
  unfolding keeps_def
proof (intro allI impI)
  fix h assume p: "prefix h0 h"
  obtain r h' where m: "m h = (r, h')" by (cases "m h")
  from assms [OF p m] show "case m h of (r, h') \<Rightarrow> prefix h0 h' \<and> (case r of Inr x \<Rightarrow> Q x | Inl e \<Rightarrow> True)"
    by (simp add: m split: sum.splits)
qed

lemma keepsD:
  assumes "keeps h0 Q m" "prefix h0 h" "m h = (r, h')"
  shows "prefix h0 h'" and "r = Inr x \<Longrightarrow> Q x"
  using assms by (auto simp: keeps_def split: sum.splits)

lemma keeps_weaken: "keeps h0 P m \<Longrightarrow> (\<And>x. P x \<Longrightarrow> Q x) \<Longrightarrow> keeps h0 Q m"
  by (rule keepsI) (auto dest: keepsD)

lemma keeps_return: "Q x \<Longrightarrow> keeps h0 Q (h_return x)"
  by (rule keepsI) (auto simp: h_return_def)

lemma keeps_raise: "keeps h0 Q (h_raise e)"
  by (rule keepsI) (auto simp: h_raise_def)

lemma keeps_bind:
  assumes m: "keeps h0 P m" and f: "\<And>x. P x \<Longrightarrow> keeps h0 Q (f x)"
  shows "keeps h0 Q (h_bind m f)"
proof (rule keepsI)
  fix h r h' assume p: "prefix h0 h" and run: "h_bind m f h = (r, h')"
  obtain r1 h1 where m1: "m h = (r1, h1)" by (cases "m h")
  note k1 = keepsD [OF m p m1]
  show "prefix h0 h' \<and> (\<forall>x. r = Inr x \<longrightarrow> Q x)"
  proof (cases r1)
    case (Inl e)
    with run m1 k1(1) show ?thesis by (auto simp: h_bind_def)
  next
    case (Inr x)
    with run m1 have "f x h1 = (r, h')" by (simp add: h_bind_def)
    with keepsD [OF f [OF k1(2) [OF Inr]] k1(1)] show ?thesis by blast
  qed
qed

lemma keeps_except_KeyError:
  assumes m: "keeps h0 Q m" and fb: "keeps h0 Q fallback"
  shows "keeps h0 Q (h_except_KeyError m fallback)"
proof (rule keepsI)
  fix h r h' assume p: "prefix h0 h" and run: "h_except_KeyError m fallback h = (r, h')"
  obtain r1 h1 where m1: "m h = (r1, h1)" by (cases "m h")
  note k1 = keepsD [OF m p m1]
  show "prefix h0 h' \<and> (\<forall>x. r = Inr x \<longrightarrow> Q x)"
  proof (cases "r1 = Inl KeyError")
    case True
    with run m1 have "fallback h1 = (r, h')" by (simp add: h_except_KeyError_def)
    with keepsD [OF fb k1(1)] show ?thesis by blast
  next
    case False
    with run m1 have "r = r1" "h' = h1"
      by (auto simp: h_except_KeyError_def split: sum.splits error.splits)
    with k1 show ?thesis by blast
  qed
qed

lemma keeps_except_Exception_ValueError:
  assumes m: "keeps h0 Q m"
  shows "keeps h0 Q (h_except_Exception_ValueError m)"
proof (rule keepsI)
  fix h r h' assume p: "prefix h0 h" and run: "h_except_Exception_ValueError m h = (r, h')"
  obtain r1 h1 where m1: "m h = (r1, h1)" by (cases "m h")
  note k1 = keepsD [OF m p m1]
  from run m1 have "h' = h1" "\<forall>x. r = Inr x \<longrightarrow> r1 = Inr x"
    by (auto simp: h_except_Exception_ValueError_def split: sum.splits)
  with k1 show "prefix h0 h' \<and> (\<forall>x. r = Inr x \<longrightarrow> Q x)" by blast
qed

lemma keeps_getitem: "keeps h0 (\<lambda>x. True) (h_getitem v key)"
  by (rule keepsI) (auto simp: h_getitem_def)

lemma keeps_mapping_items: "keeps h0 (\<lambda>x. True) (h_mapping_items v)"
  by (rule keepsI) (auto simp: h_mapping_items_def)

lemma keeps_new_dict: "keeps h0 (fresh_for h0) (h_new_dict kvs)"
  by (rule keepsI) (auto simp: h_new_dict_def fresh_for_def prefix_def)

lemma prefix_list_update: "prefix h0 h \<Longrightarrow> length h0 \<le> a \<Longrightarrow> prefix h0 (h[a := x])"
  by (auto simp: prefix_def list_update_append)

lemma keeps_setitem: "fresh_for h0 v \<Longrightarrow> keeps h0 (\<lambda>x. True) (h_setitem v key x)"
  by (rule keepsI)
     (auto simp: h_setitem_def fresh_for_def prefix_list_update split: pyval.splits option.splits)

lemma keeps_reduce_sinks:
  "fresh_for h0 d \<Longrightarrow> keeps h0 (\<lambda>x. True) (h_reduce_sinks d items)"
proof (induction items)
  case Nil
  then show ?case by (simp add: keeps_return)
next
  case (Cons kv items)
  obtain k v where kv: "kv = (k, v)" by (cases kv)
  have step: "keeps h0 (\<lambda>x. True)
      (h_bind (h_getitem v ''sink'') (\<lambda>sink. h_bind (h_setitem d k sink) (\<lambda>_. h_reduce_sinks d items)))"
    by (intro keeps_bind [OF keeps_getitem] keeps_bind [OF keeps_setitem] Cons)
  show ?case
  proof (rule keepsI)
    fix h r h' assume p: "prefix h0 h" and run: "h_reduce_sinks d (kv # items) h = (r, h')"
    show "prefix h0 h' \<and> (\<forall>x. r = Inr x \<longrightarrow> True)"
    proof (cases "dict_at h v \<noteq> None")
      case True
      with run have "h_bind (h_getitem v ''sink'')
          (\<lambda>sink. h_bind (h_setitem d k sink) (\<lambda>_. h_reduce_sinks d items)) h = (r, h')"
        by (simp add: kv)
      with keepsD(1) [OF step p] show ?thesis by simp
    next
      case False
      with run have "h_reduce_sinks d items h = (r, h')" by (simp add: kv)
      with keepsD(1) [OF Cons.IH [OF Cons.prems] p] show ?thesis by simp
    qed
  qed
qed

lemma keeps_sub_scope: "keeps h0 (\<lambda>x. True) (h_sub_scope rule_book mnc k)"
  unfolding h_sub_scope_def
  by (intro keeps_except_KeyError keeps_bind [OF keeps_getitem] keeps_getitem
        keeps_weaken [OF keeps_new_dict]) simp

lemma keeps_select:
  "keeps h0 (\<lambda>x. True)
     (case partition_py P items of
        (strict, regex) \<Rightarrow>
          h_bind (h_new_dict (f regex))
            (\<lambda>regex_dict. if c then h_new_dict (g strict) else h_return regex_dict))"
proof (cases "partition_py P items")
  case (Pair strict regex)
  have "keeps h0 (\<lambda>x. True)
          (h_bind (h_new_dict (f regex))
             (\<lambda>regex_dict. if c then h_new_dict (g strict) else h_return regex_dict))"
    by (rule keeps_bind [OF keeps_new_dict])
       (simp add: keeps_return keeps_weaken [OF keeps_new_dict])
  then show ?thesis by (simp add: Pair)
qed

lemma keeps_unify:
  "keeps h0 (\<lambda>x. True)
     (h_bind (h_new_dict merged) (\<lambda>in_effect.
      h_bind (h_reduce_sinks in_effect merged) (\<lambda>_.
      h_bind (h_mapping_items in_effect) (\<lambda>items.
        case partition_py P items of
          (strict, regex) \<Rightarrow>
            h_bind (h_new_dict (f regex))
              (\<lambda>regex_dict. if c then h_new_dict (g strict) else h_return regex_dict)))))"
proof (rule keeps_bind [OF keeps_new_dict])
  fix in_effect assume fresh: "fresh_for h0 in_effect"
  show "keeps h0 (\<lambda>x. True)
     (h_bind (h_reduce_sinks in_effect merged) (\<lambda>_.
      h_bind (h_mapping_items in_effect) (\<lambda>items.
        case partition_py P items of
          (strict, regex) \<Rightarrow>
            h_bind (h_new_dict (f regex))
              (\<lambda>regex_dict. if c then h_new_dict (g strict) else h_return regex_dict))))"
    by (intro keeps_bind [OF keeps_reduce_sinks [OF fresh]] keeps_bind [OF keeps_mapping_items]
          keeps_select)
qed

lemma keeps_get_rules: "keeps h0 (\<lambda>x. True) (h_get_rules self col_or_jur strict_or_regex report)"
  unfolding h_get_rules_def Let_def
  by (intro keeps_bind [OF keeps_getitem] keeps_bind [OF keeps_sub_scope]
      keeps_except_Exception_ValueError keeps_bind [OF keeps_mapping_items] keeps_unify)

lemma keeps_first_match: "keeps h0 (\<lambda>x. True) (h_first_match re_compile items source)"
  by (induction items) (auto simp: keeps_return keeps_raise split: option.splits)

lemma keeps_get_sink_from_strict:
  "keeps h0 (\<lambda>x. True) (h_get_sink_from_strict self report source col_or_jur)"
  unfolding h_get_sink_from_strict_def
  by (intro keeps_except_KeyError keeps_bind [OF keeps_get_rules] keeps_bind [OF keeps_mapping_items]
        keeps_return) simp_all

lemma keeps_get_sink_from_regex:
  "keeps h0 (\<lambda>x. True) (h_get_sink_from_regex re_compile self report source col_or_jur)"
  unfolding h_get_sink_from_regex_def
  by (intro keeps_bind [OF keeps_get_rules] keeps_bind [OF keeps_mapping_items] keeps_first_match)

lemma keeps_store: "keeps h Q m \<Longrightarrow> take (length h) (snd (m h)) = h"
proof -
  assume k: "keeps h Q m"
  obtain r h' where m: "m h = (r, h')" by (cases "m h")
  from keepsD(1) [OF k _ m] have "prefix h h'" by simp
  then show ?thesis by (auto simp: m prefix_def)
qed

text \<open>
  Claim C10. Whatever the store, the \<^verbatim>\<open>Rules\<close> object, the report and the query: after
  \<open>get_sink_from_strict\<close> and after \<open>get_sink_from_regex\<close> every object that was in the store
  before the call is unchanged at its address (the calls add objects of their own: the empty
  dictionaries standing for absent scopes, the merged mapping, which is the only object written
  to, and the two partitions); \<open>get_std_colnames_from_rules\<close> and the export leave the store as
  it is. None of the four has a way to rebind an attribute of the object. This holds whether
  the call returns or raises.
\<close>

theorem read_operations_keep_rule_book:
  "take (length h) (snd (h_get_sink_from_strict self report source col_or_jur h)) = h \<and>
   take (length h) (snd (h_get_sink_from_regex re_compile self report source col_or_jur h)) = h \<and>
   snd (h_get_std_colnames_from_rules depth self h) = h \<and>
   snd (h_export_justifications_to_csv depth py_str self h) = h"
  by (simp add: keeps_store [OF keeps_get_sink_from_strict] keeps_store [OF keeps_get_sink_from_regex]
      h_get_std_colnames_from_rules_def h_export_justifications_to_csv_def)

text \<open>On the sample rule book: the strict lookup answers, the eleven objects of the rule book
  are as before, and three objects were added.\<close>

theorem read_operations_keep_rule_book_witness:
  "length sample_store = 11 \<and>
   fst (h_get_sink_from_strict sample_object sample_report ''Foo'' ''c'' sample_store) = Inr (VStr ''y'') \<and>
   take 11 (snd (h_get_sink_from_strict sample_object sample_report ''Foo'' ''c'' sample_store)) =
     sample_store \<and>
   length (snd (h_get_sink_from_strict sample_object sample_report ''Foo'' ''c'' sample_store)) = 14"
proof -
  have len: "length sample_store = 11"
    by code_simp
  have res: "fst (h_get_sink_from_strict sample_object sample_report ''Foo'' ''c'' sample_store) =
               Inr (VStr ''y'')"
    by code_simp
  have grown: "length (snd (h_get_sink_from_strict sample_object sample_report ''Foo'' ''c'' sample_store)) = 14"
    by code_simp
  from read_operations_keep_rule_book [of sample_store sample_object sample_report "''Foo''" "''c''",
      THEN conjunct1]
  have "take 11 (snd (h_get_sink_from_strict sample_object sample_report ''Foo'' ''c'' sample_store)) =
          sample_store"
    by (simp only: len)
  with len res grown show ?thesis by (intro conjI)
qed

text \<open>The two models agree on the sample rule book.\<close>

lemma store_model_agrees_on_sample:
  "get_sink_from_strict sample_rules sample_report ''Foo'' ''c'' = Inr (JStr ''y'') \<and>
   fst (h_get_sink_from_strict sample_object sample_report ''Foo'' ''c'' sample_store) = Inr (VStr ''y'') \<and>
   get_sink_from_regex literal_engine sample_rules sample_report ''ABC'' ''c'' = Inr (JStr ''x'') \<and>
   fst (h_get_sink_from_regex literal_engine sample_object sample_report ''ABC'' ''c'' sample_store) =
     Inr (VStr ''x'') \<and>
   fst (h_export_justifications_to_csv 3 (\<lambda>h v. []) sample_object sample_store) =
     export_justifications_to_csv (\<lambda>v. []) sample_rules"
  by code_simp


end
